theory Spec2Isabelle
  imports Complex_Main
begin

section \<open>MobileBERT question answering: feature construction and answer decoding\<close>

text \<open>
  A shallow embedding of \<^verbatim>\<open>src/qna/src/question_and_answer.ts\<close>: the private method
  \<^verbatim>\<open>process\<close> (question normalisation, sliding windows over the passage's sub-words,
  assembly of the model inputs) and the decoder (\<^verbatim>\<open>getBestIndex\<close>, \<^verbatim>\<open>getBestAnswers\<close>,
  \<^verbatim>\<open>convertBack\<close>, and the merge at the end of \<^verbatim>\<open>findAnswers\<close>).

  Modelling decisions.
  \<^item> A JavaScript string is a \<open>string\<close>; \<^verbatim>\<open>s.length\<close> is \<open>length s\<close>.
  \<^item> Array positions, sub-word ids and original-token indices are \<open>nat\<close>; the numeric
    parameters of \<^verbatim>\<open>process\<close> and everything computed from them by subtraction are
    \<open>int\<close>, so that a negative budget is a value of the model.
  \<^item> Logits and scores are \<open>real\<close>: the model has no NaN and no rounding.
  \<^item> \<^verbatim>\<open>Array.prototype.sort\<close> with the comparator \<^verbatim>\<open>(a, b) => b.score - a.score\<close> is
    the stable sort by descending score, \<open>sort_key\<close> on the negated score.
  \<^item> A thrown \<^verbatim>\<open>Error\<close> is a value \<open>Inl e\<close> of the result; a \<^verbatim>\<open>while\<close> loop that may
    run forever is a \<^theory_text>\<open>partial_function (option)\<close>, and \<open>None\<close> is "does not return".
  \<^item> The tokenizer module \<^verbatim>\<open>./bert_tokenizer\<close> and the TensorFlow graph model are not part
    of the file: they are parameters (\<open>tk\<close> and \<open>execute\<close>).
  \<^item> Record fields carry a suffix where the source's name is a keyword or is used by two
    interfaces (\<open>text_tok\<close>, \<open>start_ai\<close>, \<open>score_ans\<close>, ...).
\<close>

subsection \<open>Constants (lines 23--32)\<close>

definition MAX_ANSWER_LEN :: nat where
  "MAX_ANSWER_LEN = 32"

definition MAX_QUERY_LEN :: int where
  "MAX_QUERY_LEN = 64"

definition MAX_SEQ_LEN :: nat where
  "MAX_SEQ_LEN = 384"

definition PREDICT_ANSWER_NUM :: nat where
  "PREDICT_ANSWER_NUM = 5"

definition OUTPUT_OFFSET :: nat where
  "OUTPUT_OFFSET = 1"

definition NO_ANSWER_THRESHOLD :: real where
  "NO_ANSWER_THRESHOLD = 4.3980759382247925"

subsection \<open>Strings\<close>

text \<open>
  \<^verbatim>\<open>String.prototype.trim\<close> removes white space and line terminators from both ends; of
  the code units below 256 these are tab, line feed, vertical tab, form feed, carriage
  return, space and the no-break space.
\<close>

definition isWhiteSpace :: "char \<Rightarrow> bool" where
  "isWhiteSpace c = ((of_char c :: nat) \<in> set [9, 10, 11, 12, 13, 32, 160])"

definition trim :: "string \<Rightarrow> string" where
  "trim s = rev (dropWhile isWhiteSpace (rev (dropWhile isWhiteSpace s)))"

text \<open>\<^verbatim>\<open>s.slice(b, e)\<close> for \<open>0 \<le> b\<close> and \<open>0 \<le> e\<close>: both ends are clipped to the string.\<close>

definition slice :: "string \<Rightarrow> nat \<Rightarrow> nat \<Rightarrow> string" where
  "slice s b e = take (e - b) (drop b s)"

subsection \<open>Data model (lines 74--95)\<close>

text \<open>\<^verbatim>\<open>Token\<close> of the tokenizer module: a word of the passage and the offset of its first character.\<close>

record Token =
  text_tok :: string
  index_tok :: nat

text \<open>
  What \<^verbatim>\<open>process\<close> imports from \<^verbatim>\<open>./bert_tokenizer\<close>: the two methods of the tokenizer it
  calls and the ids of the two special tokens.
\<close>

record BertTokenizer =
  tokenize :: "string \<Rightarrow> nat list"
  processInput :: "string \<Rightarrow> Token list"
  CLS_INDEX :: nat
  SEP_INDEX :: nat

record Feature =
  inputIds :: "nat list"
  inputMask :: "nat list"
  segmentIds :: "nat list"
  origTokens :: "Token list"
  tokenToOrigMap :: "nat \<rightharpoonup> nat"

record AnswerIndex =
  start_ai :: nat
  end_ai :: nat
  score_ai :: real

record Answer =
  text_ans :: string
  startIndex :: int
  endIndex :: int
  score_ans :: real
  context_ans :: string
  id_ans :: "string option"

text \<open>The elements of \<^verbatim>\<open>docSpans\<close> (line 142).\<close>

record DocSpan =
  start_span :: int
  length_span :: int

text \<open>
  The errors: the two \<^verbatim>\<open>throw new Error\<close> of the file (lines 119 and 218), and the
  \<^verbatim>\<open>TypeError\<close> of reading a property of \<^verbatim>\<open>undefined\<close> (lines 348--352).
\<close>

datatype error = InvalidInput | InputTooLong int | TypeError

subsection \<open>Feature construction: \<^verbatim>\<open>process\<close> (lines 109--188)\<close>

text \<open>Lines 113--115: remove every question mark, trim, append one question mark.\<close>

definition normalizeQuery :: "string \<Rightarrow> string" where
  "normalizeQuery query = trim (filter (\<lambda>c. c \<noteq> CHR ''?'') query) @ ''?''"

text \<open>
  Lines 124--134: every original token is split into sub-words; \<open>tokenToOrigIndex\<close> gets
  the token's index once per sub-word.
\<close>

fun subTokens_loop ::
  "BertTokenizer \<Rightarrow> Token list \<Rightarrow> nat \<Rightarrow> nat list \<Rightarrow> nat list \<Rightarrow> nat list \<times> nat list" where
  "subTokens_loop tk [] i tokenToOrigIndex allDocTokens = (tokenToOrigIndex, allDocTokens)"
| "subTokens_loop tk (t # ts) i tokenToOrigIndex allDocTokens =
     (let subTokens = tokenize tk (text_tok t)
      in subTokens_loop tk ts (i + 1)
           (tokenToOrigIndex @ replicate (length subTokens) i) (allDocTokens @ subTokens))"

text \<open>
  Lines 142--154: the sliding window. \<open>n\<close> is \<^verbatim>\<open>allDocTokens.length\<close>. The loop does not
  return when the step \<^verbatim>\<open>Math.min(length, docStride)\<close> is not positive.
\<close>

partial_function (option) docSpans_loop ::
  "int \<Rightarrow> int \<Rightarrow> int \<Rightarrow> int \<Rightarrow> DocSpan list \<Rightarrow> DocSpan list option" where
  "docSpans_loop n maxContextLen docStride startOffset docSpans =
     (if startOffset < n then
        (let length0 = (if n - startOffset > maxContextLen then maxContextLen else n - startOffset);
             docSpans' = docSpans @ [\<lparr>start_span = startOffset, length_span = length0\<rparr>]
         in if startOffset + length0 = n then Some docSpans'
            else docSpans_loop n maxContextLen docStride
                   (startOffset + min length0 docStride) docSpans')
      else Some docSpans)"

text \<open>
  Lines 169--175, one round of the loop over a window: the sub-word is pushed first, and the
  key of \<open>tokenToOrigMap\<close> is \<^verbatim>\<open>tokens.length\<close> after the push. The two reads are
  inside the arrays for every window the loop above returns (a window starts at
  \<open>0 \<le> start\<close> and ends at \<open>start + length \<le> n\<close>, see \<open>docSpans_loop_windows\<close>), so the
  value \<^verbatim>\<open>undefined\<close> of a read outside is not modelled.
\<close>

definition window_step ::
  "nat list \<Rightarrow> nat list \<Rightarrow> int \<Rightarrow> nat \<Rightarrow> nat list \<times> nat list \<times> (nat \<rightharpoonup> nat)
     \<Rightarrow> nat list \<times> nat list \<times> (nat \<rightharpoonup> nat)" where
  "window_step allDocTokens tokenToOrigIndex start i st =
     (case st of (tokens, segIds, m) \<Rightarrow>
        (let splitTokenIndex = nat (int i + start);
             tokens' = tokens @ [allDocTokens ! splitTokenIndex]
         in (tokens', segIds @ [1], m(length tokens' \<mapsto> tokenToOrigIndex ! splitTokenIndex))))"

text \<open>Lines 156--186: the callback of \<^verbatim>\<open>docSpans.map\<close>.\<close>

definition buildFeature ::
  "BertTokenizer \<Rightarrow> nat list \<Rightarrow> Token list \<Rightarrow> nat list \<Rightarrow> nat list \<Rightarrow> int \<Rightarrow> DocSpan \<Rightarrow> Feature" where
  "buildFeature tk queryTokens origToks tokenToOrigIndex allDocTokens maxSeqLen docSpan =
     (let tokens0 = [CLS_INDEX tk] @ queryTokens @ [SEP_INDEX tk];
          segIds0 = [0] @ replicate (length queryTokens) 0 @ [0];
          (tokens1, segIds1, m) =
             fold (window_step allDocTokens tokenToOrigIndex (start_span docSpan))
               [0..<nat (length_span docSpan)] (tokens0, segIds0, Map.empty);
          tokens2 = tokens1 @ [SEP_INDEX tk];
          segIds2 = segIds1 @ [1];
          mask = map (\<lambda>id. 1) tokens2;
          pad = nat (maxSeqLen - int (length tokens2))
      in \<lparr>inputIds = tokens2 @ replicate pad 0,
          inputMask = mask @ replicate pad 0,
          segmentIds = segIds2 @ replicate pad 0,
          origTokens = origToks,
          tokenToOrigMap = m\<rparr>)"

definition process ::
  "BertTokenizer \<Rightarrow> string \<Rightarrow> string \<Rightarrow> int \<Rightarrow> int \<Rightarrow> int \<Rightarrow> (error + Feature list) option" where
  "process tk query context maxQueryLen maxSeqLen docStride =
     (let queryTokens = tokenize tk (normalizeQuery query)
      in if int (length queryTokens) > maxQueryLen then Some (Inl (InputTooLong maxQueryLen))
         else
           (let origToks = processInput tk (trim context);
                (tokenToOrigIndex, allDocTokens) = subTokens_loop tk origToks 0 [] [];
                maxContextLen = maxSeqLen - int (length queryTokens) - 3
            in case docSpans_loop (int (length allDocTokens)) maxContextLen docStride 0 [] of
                 None \<Rightarrow> None
               | Some docSpans \<Rightarrow>
                   Some (Inr (map (buildFeature tk queryTokens origToks tokenToOrigIndex
                                     allDocTokens maxSeqLen) docSpans))))"

subsection \<open>Answer decoding (lines 272--358)\<close>

text \<open>
  Lines 324--337. The logits of a feature are an array of \<open>MAX_SEQ_LEN\<close> numbers, the shape
  of the model's output. (On a shorter array line 327 would read \<^verbatim>\<open>undefined\<close>, which is
  not modelled: \<open>logits ! i\<close> says nothing there.)
\<close>

definition getBestIndex :: "real list \<Rightarrow> nat list" where
  "getBestIndex logits =
     (let tmpList = map (\<lambda>i. (i, i, logits ! i)) [0..<MAX_SEQ_LEN];
          sorted = sort_key (\<lambda>a. - snd (snd a)) tmpList
      in map (\<lambda>i. fst (sorted ! i)) [0..<PREDICT_ANSWER_NUM])"

text \<open>
  The test of line 283 is JavaScript's truthiness of \<^verbatim>\<open>tokenToOrigMap[k]\<close>: a missing key
  gives \<^verbatim>\<open>undefined\<close>, which is falsy, and so is the number 0.
\<close>

definition truthy :: "nat option \<Rightarrow> bool" where
  "truthy v = (case v of None \<Rightarrow> False | Some k \<Rightarrow> 0 < k)"

text \<open>Lines 279--291: the candidates \<^verbatim>\<open>origResults\<close>, before they are sorted.\<close>

definition origResults ::
  "real list \<Rightarrow> real list \<Rightarrow> (nat \<rightharpoonup> nat) \<Rightarrow> AnswerIndex list" where
  "origResults startLogits endLogits m =
     concat (map (\<lambda>start.
       concat (map (\<lambda>end'.
         if truthy (m (start + OUTPUT_OFFSET)) \<and> truthy (m (end' + OUTPUT_OFFSET)) \<and> end' \<ge> start
         then (if end' - start + 1 < MAX_ANSWER_LEN
               then [\<lparr>start_ai = start, end_ai = end',
                      score_ai = startLogits ! start + endLogits ! end'\<rparr>]
               else [])
         else [])
       (getBestIndex endLogits)))
     (getBestIndex startLogits))"

text \<open>
  Lines 340--358. \<^verbatim>\<open>origTokens[k].index\<close> throws a \<^verbatim>\<open>TypeError\<close> when \<open>k\<close> is \<^verbatim>\<open>undefined\<close>
  (the key is not in the map) or is not an index of \<open>origTokens\<close>. The start offset is
  an offset of a token; the end offset is one less than the offset of the next token, so
  it is an \<open>int\<close>. The second argument of \<^verbatim>\<open>slice\<close> is \<open>endCharIndex + 1\<close>, which is not
  negative.
\<close>

definition convertBack ::
  "Token list \<Rightarrow> (nat \<rightharpoonup> nat) \<Rightarrow> nat \<Rightarrow> nat \<Rightarrow> string \<Rightarrow> error + (string \<times> int \<times> int)" where
  "convertBack origToks m start end' context =
     (let shiftedStart = start + OUTPUT_OFFSET;
          shiftedEnd = end' + OUTPUT_OFFSET
      in case m shiftedStart of
           None \<Rightarrow> Inl TypeError
         | Some startIx \<Rightarrow>
             if length origToks \<le> startIx then Inl TypeError
             else (case m shiftedEnd of
                None \<Rightarrow> Inl TypeError
              | Some endIx \<Rightarrow>
                  if length origToks \<le> endIx then Inl TypeError
                  else
                    (let startCharIndex = int (index_tok (origToks ! startIx));
                         endCharIndex =
                           (if int endIx < int (length origToks) - 1
                            then int (index_tok (origToks ! (endIx + 1))) - 1
                            else int (index_tok (origToks ! endIx))
                                   + int (length (text_tok (origToks ! endIx))))
                     in Inr (trim (slice context (nat startCharIndex) (nat (endCharIndex + 1))),
                             startCharIndex, endCharIndex))))"

text \<open>Lines 294--320: the loop over the sorted candidates, \<open>i\<close> being its counter.\<close>

fun answers_loop ::
  "Token list \<Rightarrow> (nat \<rightharpoonup> nat) \<Rightarrow> string \<Rightarrow> string option \<Rightarrow> nat \<Rightarrow> AnswerIndex list
     \<Rightarrow> error + Answer list" where
  "answers_loop origToks m context ident i [] = Inr []"
| "answers_loop origToks m context ident i (r # rs) =
     (if PREDICT_ANSWER_NUM \<le> i \<or> score_ai r < NO_ANSWER_THRESHOLD then Inr []
      else
        (case (if 0 < start_ai r then convertBack origToks m (start_ai r) (end_ai r) context
               else Inr ('''', 0, 0)) of
           Inl e \<Rightarrow> Inl e
         | Inr (convertedText, startIx, endIx) \<Rightarrow>
             (case answers_loop origToks m context ident (i + 1) rs of
                Inl e \<Rightarrow> Inl e
              | Inr answers \<Rightarrow>
                  Inr (\<lparr>text_ans = convertedText, startIndex = startIx, endIndex = endIx,
                        score_ans = score_ai r, context_ans = context, id_ans = ident\<rparr>
                       # answers))))"

text \<open>Lines 272--321. \<open>docIndex\<close> is a parameter the body never reads.\<close>

definition getBestAnswers ::
  "real list \<Rightarrow> real list \<Rightarrow> Token list \<Rightarrow> (nat \<rightharpoonup> nat) \<Rightarrow> string \<Rightarrow> nat \<Rightarrow> string option
     \<Rightarrow> error + Answer list" where
  "getBestAnswers startLogits endLogits origToks m context docIndex ident =
     answers_loop origToks m context ident 0
       (sort_key (\<lambda>a. - score_ai a) (origResults startLogits endLogits m))"

subsection \<open>\<^verbatim>\<open>findAnswers\<close> (lines 216--263)\<close>

text \<open>The loop of lines 252--257 stops at the first call that throws.\<close>

fun collect :: "(error + 'a) list \<Rightarrow> error + 'a list" where
  "collect [] = Inr []"
| "collect (Inl e # rs) = Inl e"
| "collect (Inr x # rs) = (case collect rs of Inl e \<Rightarrow> Inl e | Inr xs \<Rightarrow> Inr (x # xs))"

text \<open>Lines 259--262: flatten, sort by descending score, keep the first five.\<close>

definition merge_answers :: "Answer list list \<Rightarrow> Answer list" where
  "merge_answers answers =
     take PREDICT_ANSWER_NUM (sort_key (\<lambda>a. - score_ans a) (concat answers))"

text \<open>
  \<open>question\<close> and \<open>context\<close> are \<open>None\<close> for \<^verbatim>\<open>null\<close> and \<^verbatim>\<open>undefined\<close>. \<open>execute\<close> is the
  graph model: from the three input arrays of the batch to the start and end logits, one
  row per feature. It is a total function here: a failure of the model is outside the
  embedding, and so are the tensors that lines 228--250 allocate and dispose.
\<close>

definition findAnswers ::
  "BertTokenizer \<Rightarrow> (nat list list \<Rightarrow> nat list list \<Rightarrow> nat list list \<Rightarrow> real list list \<times> real list list)
     \<Rightarrow> string option \<Rightarrow> string option \<Rightarrow> string option \<Rightarrow> (error + Answer list) option" where
  "findAnswers tk execute question context ident =
     (case question of
        None \<Rightarrow> Some (Inl InvalidInput)
      | Some q \<Rightarrow>
         (case context of
            None \<Rightarrow> Some (Inl InvalidInput)
          | Some c \<Rightarrow>
             (case process tk q c MAX_QUERY_LEN (int MAX_SEQ_LEN) 128 of
                None \<Rightarrow> None
              | Some (Inl e) \<Rightarrow> Some (Inl e)
              | Some (Inr features) \<Rightarrow>
                 (let logits = execute (map inputIds features) (map segmentIds features)
                                 (map inputMask features)
                  in case collect (map (\<lambda>i. getBestAnswers (fst logits ! i) (snd logits ! i)
                                              (origTokens (features ! i))
                                              (tokenToOrigMap (features ! i)) c i ident)
                                     [0..<length features]) of
                       Inl e \<Rightarrow> Some (Inl e)
                     | Inr answers \<Rightarrow> Some (Inr (merge_answers answers))))))"

subsection \<open>The shape of a list of windows\<close>

text \<open>
  A predicate for the proofs, not a part of the program: \<open>ws\<close> is a list of windows over
  \<open>n\<close> sub-words that starts at offset \<open>a\<close>, in which every window that is not the last
  has \<open>M\<close> sub-words, ends before \<open>n\<close> and is followed by a window that starts \<open>s\<close> later,
  and the last window ends at \<open>n\<close>. The empty list stands for the loop that is not
  entered.
\<close>

fun window_chain :: "int \<Rightarrow> int \<Rightarrow> int \<Rightarrow> int \<Rightarrow> DocSpan list \<Rightarrow> bool" where
  "window_chain n M s a [] = (n \<le> a)"
| "window_chain n M s a [w] =
     (a < n \<and> start_span w = a \<and> length_span w = n - a \<and> n - a \<le> M)"
| "window_chain n M s a (w # w' # ws) =
     (a < n \<and> start_span w = a \<and> length_span w = M \<and> M < n - a \<and>
      window_chain n M s (a + s) (w' # ws))"

subsection \<open>A tokenizer for the examples\<close>

text \<open>
  The closed examples below need some tokenizer. This stand-in is not the tokenizer of the
  repository: \<open>processInput\<close> cuts the text at spaces and records where each word starts,
  \<open>tokenize\<close> makes one sub-word of every character (its code), and the special tokens
  have the ids 101 and 102. In \<open>splitWords i w cs\<close> the word \<open>w\<close> has been read and
  \<open>i\<close> is the offset of the first character of \<open>cs\<close>.
\<close>

fun splitWords :: "nat \<Rightarrow> string \<Rightarrow> string \<Rightarrow> Token list" where
  "splitWords i w [] =
     (if w = [] then [] else [\<lparr>text_tok = w, index_tok = i - length w\<rparr>])"
| "splitWords i w (c # cs) =
     (if c = CHR '' ''
      then (if w = [] then [] else [\<lparr>text_tok = w, index_tok = i - length w\<rparr>])
             @ splitWords (i + 1) [] cs
      else splitWords (i + 1) (w @ [c]) cs)"

definition example_tokenizer :: BertTokenizer where
  "example_tokenizer =
     \<lparr>tokenize = map of_char, processInput = splitWords 0 [],
      CLS_INDEX = 101, SEP_INDEX = 102\<rparr>"

text \<open>
  A row of logits for the examples: 0 everywhere but at position \<open>k\<close>, where it is 10.
\<close>

definition peak_at :: "nat \<Rightarrow> real list" where
  "peak_at k = (replicate MAX_SEQ_LEN 0)[k := 10]"

text \<open>
  The feature of the question \<open>q\<close> and the passage \<open>a b\<close> under the stand-in tokenizer:
  the sequence \<open>[CLS] q ? [SEP] a b [SEP]\<close>, the passage's two words being the original
  tokens 0 and 1 (see \<open>example_process\<close> below).
\<close>

definition example_feature :: Feature where
  "example_feature =
     buildFeature example_tokenizer [113, 63]
       [\<lparr>text_tok = ''a'', index_tok = 0\<rparr>, \<lparr>text_tok = ''b'', index_tok = 2\<rparr>]
       [0, 1] [97, 98] (int MAX_SEQ_LEN) \<lparr>start_span = 0, length_span = 2\<rparr>"

section \<open>Question normalisation\<close>

lemma dropWhile_fixed: "xs = [] \<or> \<not> P (hd xs) \<Longrightarrow> dropWhile P xs = xs"
  by (cases xs) auto

lemma hd_dropWhile_rev_dropWhile:
  assumes "rev (dropWhile P (rev (dropWhile P s))) \<noteq> []"
  shows "\<not> P (hd (rev (dropWhile P (rev (dropWhile P s)))))"
proof -
  let ?t = "dropWhile P s"
  have tn: "?t \<noteq> []" using assms by (metis dropWhile.simps(1) rev.simps(1))
  have h: "\<not> P (hd ?t)" using tn hd_dropWhile [of P s] by blast
  have "\<exists>ys. ?t = rev (dropWhile P (rev ?t)) @ ys"
    by (metis rev_append rev_rev_ident takeWhile_dropWhile_id)
  then obtain ys where ys: "?t = rev (dropWhile P (rev ?t)) @ ys" ..
  with assms have "hd ?t = hd (rev (dropWhile P (rev ?t)))"
    by (metis hd_append2)
  with h show ?thesis by simp
qed

lemma trim_trim: "trim (trim s) = trim s"
proof -
  let ?u = "rev (dropWhile isWhiteSpace (rev (dropWhile isWhiteSpace s)))"
  have "dropWhile isWhiteSpace ?u = ?u"
    using hd_dropWhile_rev_dropWhile [of isWhiteSpace s] by (intro dropWhile_fixed) blast
  then show ?thesis
    by (simp add: trim_def)
qed

lemma set_trim: "set (trim s) \<subseteq> set s"
proof
  fix x assume "x \<in> set (trim s)"
  then have "x \<in> set (dropWhile isWhiteSpace (rev (dropWhile isWhiteSpace s)))"
    by (simp add: trim_def)
  then have "x \<in> set (rev (dropWhile isWhiteSpace s))" by (rule set_dropWhileD)
  then have "x \<in> set (dropWhile isWhiteSpace s)" by simp
  then show "x \<in> set s" by (rule set_dropWhileD)
qed

lemma no_question_mark_in_trimmed:
  "CHR ''?'' \<notin> set (trim (filter (\<lambda>c. c \<noteq> CHR ''?'') q))"
  using set_trim by fastforce

lemma normalizeQuery_twice: "normalizeQuery (normalizeQuery q) = normalizeQuery q"
proof -
  let ?t = "trim (filter (\<lambda>c. c \<noteq> CHR ''?'') q)"
  have "filter (\<lambda>c. c \<noteq> CHR ''?'') (?t @ ''?'') = ?t"
    using no_question_mark_in_trimmed [of q] by (auto simp add: filter_id_conv)
  then show ?thesis
    by (simp add: normalizeQuery_def trim_trim)
qed

text \<open>
  Claim C9. Normalising a question twice gives what normalising it once gives, for every
  string; the normalised question ends with a question mark, and that is its only one
  (none stands before the last character, so the question mark occurs exactly once).
\<close>

theorem normalizeQuery_idempotent:
  "normalizeQuery (normalizeQuery q) = normalizeQuery q \<and>
   last (normalizeQuery q) = CHR ''?'' \<and>
   CHR ''?'' \<notin> set (butlast (normalizeQuery q)) \<and>
   count_list (normalizeQuery q) (CHR ''?'') = 1"
  using no_question_mark_in_trimmed [of q]
  by (simp add: normalizeQuery_twice) (simp add: normalizeQuery_def count_list_0_iff)

section \<open>The sliding window\<close>

lemma docSpans_loop_chain:
  assumes "docSpans_loop n0 M0 d0 a0 acc0 = Some res0"
  shows "\<exists>ws. res0 = acc0 @ ws \<and> window_chain n0 M0 (min M0 d0) a0 ws"
proof (rule docSpans_loop.raw_induct
    [where P = "\<lambda>n M d a acc res. \<exists>ws. res = acc @ ws \<and> window_chain n M (min M d) a ws",
     OF _ assms], goal_cases)
  case (1 f n M d a acc res)
  show ?case
  proof (cases "a < n")
    case False
    with 1(2) have "res = acc" by simp
    with False show ?thesis by (intro exI [of _ "[]"]) simp
  next
    case True
    show ?thesis
    proof (cases "M < n - a")
      case False
      with True 1(2) have "res = acc @ [\<lparr>start_span = a, length_span = n - a\<rparr>]"
        by (simp add: Let_def)
      with True False show ?thesis
        by (intro exI [of _ "[\<lparr>start_span = a, length_span = n - a\<rparr>]"]) simp
    next
      case big: True
      let ?w = "\<lparr>start_span = a, length_span = M\<rparr>"
      from True big 1(2) have "f n M d (a + min M d) (acc @ [?w]) = Some res"
        by (simp add: Let_def split: if_splits)
      from 1(1) [OF this] obtain ws
        where ws: "res = (acc @ [?w]) @ ws" "window_chain n M (min M d) (a + min M d) ws"
        by blast
      have "ws \<noteq> []"
      proof
        assume "ws = []"
        with ws(2) have "n \<le> a + min M d" by simp
        with big show False by simp
      qed
      then obtain w' ws' where "ws = w' # ws'" by (cases ws) auto
      with ws True big have "res = acc @ (?w # ws) \<and> window_chain n M (min M d) a (?w # ws)"
        by simp
      then show ?thesis by blast
    qed
  qed
qed

lemma docSpans_loop_returns:
  assumes "0 < M" and "0 < d"
  shows "\<exists>res. docSpans_loop n M d a acc = Some res"
proof (induction "nat (n - a)" arbitrary: a acc rule: less_induct)
  case less
  show ?case
  proof (cases "a < n \<and> M < n - a")
    case False
    then show ?thesis
      by (subst docSpans_loop.simps) (auto simp add: Let_def)
  next
    case True
    let ?w = "\<lparr>start_span = a, length_span = M\<rparr>"
    have "nat (n - (a + min M d)) < nat (n - a)"
      using True assms by auto
    from less [OF this] obtain res
      where "docSpans_loop n M d (a + min M d) (acc @ [?w]) = Some res" by blast
    with True show ?thesis
      by (subst docSpans_loop.simps) (auto simp add: Let_def)
  qed
qed


section \<open>The best positions of a row of logits\<close>

lemma insort_key_front:
  "\<forall>y\<in>set ys. f x \<le> f y \<Longrightarrow> insort_key f x ys = x # ys"
  by (cases ys) auto

lemma foldr_insort_behind:
  assumes "sorted (map f (as @ bs))" and "\<forall>a\<in>set as. f x < f a"
  shows "foldr (insort_key f) as (x # bs) = x # as @ bs"
  using assms
proof (induction as)
  case Nil
  then show ?case by simp
next
  case (Cons a as)
  then have "foldr (insort_key f) as (x # bs) = x # as @ bs"
    by simp
  moreover have "\<not> f a \<le> f x" using Cons.prems(2) by auto
  moreover have "insort_key f a (as @ bs) = a # as @ bs"
    using Cons.prems(1) by (intro insort_key_front) auto
  ultimately show ?case by simp
qed

lemma sort_key_spike:
  assumes "sorted (map f (as @ bs))" and "\<forall>a\<in>set as. f x < f a" and "\<forall>b\<in>set bs. f x \<le> f b"
  shows "sort_key f (as @ x # bs) = x # as @ bs"
proof -
  have sb: "sorted (map f bs)" using assms(1) by (simp add: sorted_append)
  have "sort_key f (as @ x # bs) = foldr (insort_key f) as (insort_key f x (sort_key f bs))"
    by (simp add: sort_key_def)
  also have "sort_key f bs = bs" using sb by (rule sort_key_id_if_sorted)
  also have "insort_key f x bs = x # bs" using assms(3) by (rule insort_key_front)
  also have "foldr (insort_key f) as (x # bs) = x # as @ bs"
    using assms(1,2) by (rule foldr_insort_behind)
  finally show ?thesis .
qed

lemma getBestIndex_spike:
  assumes k: "4 \<le> k" "k < MAX_SEQ_LEN"
    and flat: "\<forall>i<MAX_SEQ_LEN. i \<noteq> k \<longrightarrow> logits ! i = c"
    and top: "c < logits ! k"
  shows "getBestIndex logits = [k, 0, 1, 2, 3]"
proof -
  let ?g = "\<lambda>i. (i, i, logits ! i)"
  let ?f = "\<lambda>a :: nat \<times> nat \<times> real. - snd (snd a)"
  let ?as = "map ?g [0..<k]" and ?bs = "map ?g [Suc k..<MAX_SEQ_LEN]"
  have split: "[0..<MAX_SEQ_LEN] = [0..<k] @ k # [Suc k..<MAX_SEQ_LEN]"
  proof -
    have "[0..<k + (MAX_SEQ_LEN - k)] = [0..<k] @ [k..<k + (MAX_SEQ_LEN - k)]"
      by (rule upt_add_eq_append) simp
    then show ?thesis using k(2) by (simp add: upt_conv_Cons)
  qed
  have tmp: "map ?g [0..<MAX_SEQ_LEN] = ?as @ ?g k # ?bs"
    by (subst split) simp
  have keys: "map ?f (?as @ ?bs) = replicate (length (?as @ ?bs)) (- c)"
    using flat k by (intro replicate_eqI) auto
  have 1: "sorted (map ?f (?as @ ?bs))"
    unfolding keys by simp
  have 2: "\<forall>a\<in>set ?as. ?f (?g k) < ?f a" using flat top k by auto
  have 3: "\<forall>b\<in>set ?bs. ?f (?g k) \<le> ?f b" using flat top k by auto
  have srt: "sort_key ?f (map ?g [0..<MAX_SEQ_LEN]) = ?g k # ?as @ ?bs"
    unfolding tmp using 1 2 3 by (rule sort_key_spike)
  have "[0..<4 + (k - 4)] = [0..<4] @ [4..<4 + (k - 4)]"
    by (rule upt_add_eq_append) simp
  moreover have "[0..<4] = [0, 1, 2, 3::nat]"
    by code_simp
  ultimately have "[0..<k] = [0, 1, 2, 3] @ [4..<k]"
    using k(1) by simp
  then have as: "?as = [?g 0, ?g 1, ?g 2, ?g 3] @ map ?g [4..<k]" by simp
  show ?thesis
    unfolding getBestIndex_def Let_def srt as
    by (simp add: PREDICT_ANSWER_NUM_def upt_conv_Cons)
qed

section \<open>The windows are inside the passage\<close>

lemma window_chain_no_backward_step:
  "window_chain n M s a ws \<Longrightarrow> ws \<noteq> [] \<Longrightarrow> M < n - a \<Longrightarrow> s \<le> 0 \<Longrightarrow> False"
proof (induction n M s a ws rule: window_chain.induct)
  case (1 n M s a)
  then show ?case by simp
next
  case (2 n M s a w)
  then show ?case by simp
next
  case (3 n M s a w w' ws)
  from "3.prems" have "window_chain n M s (a + s) (w' # ws)" and "M < n - (a + s)"
    by simp_all
  with "3.IH" "3.prems"(4) show ?case by simp
qed

lemma window_chain_in_range:
  "window_chain n M s a ws \<Longrightarrow> 0 \<le> a \<Longrightarrow> s \<le> M \<Longrightarrow>
     \<forall>w\<in>set ws. 0 \<le> start_span w \<and> 0 < length_span w \<and>
        start_span w + length_span w \<le> n \<and> length_span w \<le> M"
proof (induction n M s a ws rule: window_chain.induct)
  case (1 n M s a)
  then show ?case by simp
next
  case (2 n M s a w)
  then show ?case by simp
next
  case (3 n M s a w w' ws)
  from "3.prems"(1) have ch: "window_chain n M s (a + s) (w' # ws)" and big: "M < n - a"
    and w: "start_span w = a" "length_span w = M"
    by simp_all
  have "0 < s"
  proof (rule ccontr)
    assume "\<not> 0 < s"
    then have "s \<le> 0" by simp
    moreover from this big have "M < n - (a + s)" by simp
    ultimately show False
      using window_chain_no_backward_step [OF ch] by simp
  qed
  with "3.prems" have "0 \<le> a + s" and "0 < M" by simp_all
  with "3.IH" [OF ch] "3.prems"(3) w big "3.prems"(2) show ?case by simp
qed

section \<open>The sub-words of the passage\<close>

lemma subTokens_loop_invariant:
  assumes "subTokens_loop tk ts i a b = (a', b')"
    and "length a = length b" and "length pre = i"
    and "\<forall>j<length a. a ! j < i \<and> b ! j \<in> set (tokenize tk (text_tok (pre ! (a ! j))))"
  shows "length a' = length b' \<and>
         (\<forall>j<length a'. a' ! j < i + length ts \<and>
             b' ! j \<in> set (tokenize tk (text_tok ((pre @ ts) ! (a' ! j)))))"
  using assms
proof (induction ts arbitrary: i a b pre)
  case Nil
  then show ?case by simp
next
  case (Cons t ts)
  let ?sub = "tokenize tk (text_tok t)"
  let ?a = "a @ replicate (length ?sub) i" and ?b = "b @ ?sub"
  have run: "subTokens_loop tk ts (i + 1) ?a ?b = (a', b')"
    using Cons.prems(1) by (simp add: Let_def)
  have len: "length ?a = length ?b" using Cons.prems(2) by simp
  have pre: "length (pre @ [t]) = i + 1" using Cons.prems(3) by simp
  have inv: "\<forall>j<length ?a. ?a ! j < i + 1 \<and>
       ?b ! j \<in> set (tokenize tk (text_tok ((pre @ [t]) ! (?a ! j))))"
  proof (intro allI impI)
    fix j assume j: "j < length ?a"
    show "?a ! j < i + 1 \<and> ?b ! j \<in> set (tokenize tk (text_tok ((pre @ [t]) ! (?a ! j))))"
    proof (cases "j < length a")
      case True
      with Cons.prems(2,3,4) show ?thesis by (auto simp add: nth_append less_Suc_eq)
    next
      case False
      with j Cons.prems(2,3) show ?thesis by (simp add: nth_append)
    qed
  qed
  from Cons.IH [OF run len pre inv] show ?case by simp
qed

lemma subTokens_loop_sound:
  assumes "subTokens_loop tk ts 0 [] [] = (tokenToOrigIndex, allDocTokens)"
  shows "length tokenToOrigIndex = length allDocTokens"
    and "\<forall>j<length allDocTokens. tokenToOrigIndex ! j < length ts \<and>
           allDocTokens ! j \<in> set (tokenize tk (text_tok (ts ! (tokenToOrigIndex ! j))))"
  using subTokens_loop_invariant [OF assms, of "[]"] by simp_all

section \<open>The assembled sequence of a window\<close>

lemma fold_window_step:
  "fold (window_step allDocTokens tokenToOrigIndex st) [0..<k] (tokens0, segIds0, m0) =
     (tokens0 @ map (\<lambda>i. allDocTokens ! nat (int i + st)) [0..<k],
      segIds0 @ replicate k 1,
      (\<lambda>p. if length tokens0 < p \<and> p \<le> length tokens0 + k
            then Some (tokenToOrigIndex ! nat (int (p - length tokens0 - 1) + st))
            else m0 p))"
proof (induction k)
  case 0
  then show ?case by (auto simp add: fun_eq_iff)
next
  case (Suc k)
  let ?f = "window_step allDocTokens tokenToOrigIndex st"
  have "fold ?f [0..<Suc k] (tokens0, segIds0, m0) = ?f k (fold ?f [0..<k] (tokens0, segIds0, m0))"
    by simp
  also have "\<dots> = ?f k (tokens0 @ map (\<lambda>i. allDocTokens ! nat (int i + st)) [0..<k],
      segIds0 @ replicate k 1,
      (\<lambda>p. if length tokens0 < p \<and> p \<le> length tokens0 + k
            then Some (tokenToOrigIndex ! nat (int (p - length tokens0 - 1) + st))
            else m0 p))"
    by (simp only: Suc)
  also have "\<dots> = (tokens0 @ map (\<lambda>i. allDocTokens ! nat (int i + st)) [0..<Suc k],
      segIds0 @ replicate (Suc k) 1,
      (\<lambda>p. if length tokens0 < p \<and> p \<le> length tokens0 + Suc k
            then Some (tokenToOrigIndex ! nat (int (p - length tokens0 - 1) + st))
            else m0 p))"
    by (auto simp add: window_step_def Let_def replicate_append_same fun_eq_iff)
  finally show ?case .
qed

section \<open>The fields of a feature\<close>

lemma tokenToOrigMap_buildFeature:
  "tokenToOrigMap (buildFeature tk queryTokens origToks tokenToOrigIndex allDocTokens maxSeqLen docSpan) =
     (\<lambda>p. if length queryTokens + 2 < p \<and> p \<le> length queryTokens + 2 + nat (length_span docSpan)
           then Some (tokenToOrigIndex ! nat (int (p - length queryTokens - 3) + start_span docSpan))
           else None)"
  by (auto simp add: buildFeature_def fold_window_step Let_def fun_eq_iff ac_simps)

lemma origTokens_buildFeature:
  "origTokens (buildFeature tk queryTokens origToks tokenToOrigIndex allDocTokens maxSeqLen docSpan) = origToks"
  by (simp add: buildFeature_def fold_window_step Let_def)

lemma inputIds_buildFeature:
  "inputIds (buildFeature tk queryTokens origToks tokenToOrigIndex allDocTokens maxSeqLen docSpan) =
     CLS_INDEX tk # queryTokens @ [SEP_INDEX tk]
       @ map (\<lambda>i. allDocTokens ! nat (int i + start_span docSpan)) [0..<nat (length_span docSpan)]
       @ [SEP_INDEX tk]
       @ replicate (nat (maxSeqLen - int (length queryTokens + nat (length_span docSpan) + 3))) 0"
  by (simp add: buildFeature_def fold_window_step Let_def)

section \<open>What \<open>process\<close> returns\<close>

lemma process_too_long:
  "maxQueryLen < int (length (tokenize tk (normalizeQuery query))) \<Longrightarrow>
     process tk query context maxQueryLen maxSeqLen docStride = Some (Inl (InputTooLong maxQueryLen))"
  by (simp add: process_def Let_def)

lemma process_not_too_long:
  assumes "\<not> maxQueryLen < int (length (tokenize tk (normalizeQuery query)))"
    and "subTokens_loop tk (processInput tk (trim context)) 0 [] [] = (tokenToOrigIndex, allDocTokens)"
  shows "process tk query context maxQueryLen maxSeqLen docStride =
     map_option (\<lambda>docSpans. Inr (map (buildFeature tk (tokenize tk (normalizeQuery query))
                    (processInput tk (trim context)) tokenToOrigIndex allDocTokens maxSeqLen) docSpans))
       (docSpans_loop (int (length allDocTokens))
          (maxSeqLen - int (length (tokenize tk (normalizeQuery query))) - 3) docStride 0 [])"
  using assms by (simp add: process_def Let_def split: option.splits)

lemma process_features:
  assumes "process tk query context maxQueryLen maxSeqLen docStride = Some (Inr features)"
    and "subTokens_loop tk (processInput tk (trim context)) 0 [] [] = (tokenToOrigIndex, allDocTokens)"
  shows "\<exists>docSpans.
     docSpans_loop (int (length allDocTokens))
          (maxSeqLen - int (length (tokenize tk (normalizeQuery query))) - 3) docStride 0 [] = Some docSpans \<and>
     features = map (buildFeature tk (tokenize tk (normalizeQuery query))
                    (processInput tk (trim context)) tokenToOrigIndex allDocTokens maxSeqLen) docSpans \<and>
     \<not> maxQueryLen < int (length (tokenize tk (normalizeQuery query)))"
proof (cases "maxQueryLen < int (length (tokenize tk (normalizeQuery query)))")
  case True
  from process_too_long [OF this] assms(1) show ?thesis by simp
next
  case False
  from process_not_too_long [OF this assms(2)] assms(1) False show ?thesis
    by auto
qed

lemma docSpans_loop_windows:
  assumes "docSpans_loop n M d 0 [] = Some docSpans"
  shows "window_chain n M (min M d) 0 docSpans"
    and "\<forall>w\<in>set docSpans. 0 \<le> start_span w \<and> 0 < length_span w \<and>
            start_span w + length_span w \<le> n \<and> length_span w \<le> M"
proof -
  from docSpans_loop_chain [OF assms] show ch: "window_chain n M (min M d) 0 docSpans"
    by simp
  from window_chain_in_range [OF ch] show "\<forall>w\<in>set docSpans. 0 \<le> start_span w \<and> 0 < length_span w \<and>
            start_span w + length_span w \<le> n \<and> length_span w \<le> M"
    by simp
qed

section \<open>Claims about the windows\<close>

lemma docSpans_loop_single:
  assumes "0 < n" and "n \<le> M"
  shows "docSpans_loop n M d 0 [] = Some [\<lparr>start_span = 0, length_span = n\<rparr>]"
  using assms by (subst docSpans_loop.simps) simp

text \<open>
  Claim C4, amended. When the question is not too long and the passage has at least one
  sub-word and fewer than \<open>maxContextLen = maxSeqLen - length queryTokens - 3\<close> of them,
  \<open>process\<close> returns exactly one feature; its window starts at 0 and has all the sub-words
  of the passage, which stand in \<open>inputIds\<close> between the two separators. (A passage with
  no sub-word gives no feature.)
\<close>

theorem short_passage_one_feature:
  assumes "queryTokens = tokenize tk (normalizeQuery query)"
    and "int (length queryTokens) \<le> maxQueryLen"
    and "subTokens_loop tk (processInput tk (trim context)) 0 [] [] = (tokenToOrigIndex, allDocTokens)"
    and "allDocTokens \<noteq> []"
    and "int (length allDocTokens) < maxSeqLen - int (length queryTokens) - 3"
  shows "\<exists>f. process tk query context maxQueryLen maxSeqLen docStride = Some (Inr [f]) \<and>
           docSpans_loop (int (length allDocTokens)) (maxSeqLen - int (length queryTokens) - 3)
             docStride 0 [] = Some [\<lparr>start_span = 0, length_span = int (length allDocTokens)\<rparr>] \<and>
           f = buildFeature tk queryTokens (processInput tk (trim context)) tokenToOrigIndex
                 allDocTokens maxSeqLen \<lparr>start_span = 0, length_span = int (length allDocTokens)\<rparr> \<and>
           inputIds f = CLS_INDEX tk # queryTokens @ [SEP_INDEX tk] @ allDocTokens @ [SEP_INDEX tk]
              @ replicate (nat (maxSeqLen - int (length queryTokens + length allDocTokens + 3))) 0"
proof -
  let ?w = "\<lparr>start_span = 0, length_span = int (length allDocTokens)\<rparr>"
  have loop: "docSpans_loop (int (length allDocTokens)) (maxSeqLen - int (length queryTokens) - 3)
             docStride 0 [] = Some [?w]"
    using assms(4,5) by (intro docSpans_loop_single) simp_all
  have "process tk query context maxQueryLen maxSeqLen docStride =
      Some (Inr [buildFeature tk queryTokens (processInput tk (trim context)) tokenToOrigIndex
                 allDocTokens maxSeqLen ?w])"
    using process_not_too_long [OF _ assms(3), of maxQueryLen query maxSeqLen docStride]
      assms(1,2) loop by simp
  moreover have "inputIds (buildFeature tk queryTokens (processInput tk (trim context)) tokenToOrigIndex
                 allDocTokens maxSeqLen ?w) = CLS_INDEX tk # queryTokens @ [SEP_INDEX tk] @ allDocTokens @ [SEP_INDEX tk]
              @ replicate (nat (maxSeqLen - int (length queryTokens + length allDocTokens + 3))) 0"
    by (simp add: inputIds_buildFeature map_nth)
  ultimately show ?thesis using loop by simp
qed

text \<open>
  The question \<open>q\<close> and the passage \<open>ab\<close>: one feature, the sequence
  \<open>[CLS] q ? [SEP] a b [SEP]\<close> and 377 paddings.
\<close>

theorem short_passage_one_feature_witness:
  "\<exists>f. process example_tokenizer ''q'' ''ab'' MAX_QUERY_LEN (int MAX_SEQ_LEN) 128 = Some (Inr [f]) \<and>
       inputIds f = [101, 113, 63, 102, 97, 98, 102] @ replicate 377 0"
proof -
  have q: "[113, 63] = tokenize example_tokenizer (normalizeQuery ''q'')"
    by (simp add: normalizeQuery_def example_tokenizer_def trim_def isWhiteSpace_def)
  have len: "int (length [113, 63 :: nat]) \<le> MAX_QUERY_LEN"
    by (simp add: MAX_QUERY_LEN_def)
  have sub: "subTokens_loop example_tokenizer (processInput example_tokenizer (trim ''ab'')) 0 [] []
      = ([0, 0], [97, 98])"
    by (simp add: example_tokenizer_def trim_def isWhiteSpace_def)
  have ne: "[97, 98 :: nat] \<noteq> []" by simp
  have short: "int (length [97, 98 :: nat]) < int MAX_SEQ_LEN - int (length [113, 63 :: nat]) - 3"
    by (simp add: MAX_SEQ_LEN_def)
  from short_passage_one_feature [OF q len sub ne short, of 128]
  show ?thesis
    by (simp add: example_tokenizer_def MAX_SEQ_LEN_def)
qed

text \<open>
  Claim C4 as it is stated fails at the empty passage: its sub-word sequence has length 0,
  which is less than \<open>maxContextLen = 384 - 2 - 3\<close>, and the loop of line 144 is not
  entered, so no feature is produced.
\<close>

theorem empty_passage_no_feature:
  "process example_tokenizer ''q'' '''' MAX_QUERY_LEN (int MAX_SEQ_LEN) 128 = Some (Inr []) \<and>
   snd (subTokens_loop example_tokenizer (processInput example_tokenizer (trim '''')) 0 [] []) = [] \<and>
   int (length ([] :: nat list))
     < int MAX_SEQ_LEN - int (length (tokenize example_tokenizer (normalizeQuery ''q''))) - 3"
  by (simp add: process_def normalizeQuery_def example_tokenizer_def trim_def isWhiteSpace_def
        docSpans_loop.simps MAX_QUERY_LEN_def MAX_SEQ_LEN_def)




section \<open>The candidates of a feature\<close>

lemma origResults_iff:
  "r \<in> set (origResults startLogits endLogits m) \<longleftrightarrow>
     start_ai r \<in> set (getBestIndex startLogits) \<and> end_ai r \<in> set (getBestIndex endLogits) \<and>
     truthy (m (start_ai r + OUTPUT_OFFSET)) \<and> truthy (m (end_ai r + OUTPUT_OFFSET)) \<and>
     start_ai r \<le> end_ai r \<and> end_ai r - start_ai r + 1 < MAX_ANSWER_LEN \<and>
     score_ai r = startLogits ! start_ai r + endLogits ! end_ai r"
  by (cases r) (auto simp add: origResults_def split: if_splits)

lemma truthy_Some: "truthy v \<longleftrightarrow> (\<exists>k. v = Some k \<and> 0 < k)"
  by (cases v) (simp_all add: truthy_def)

lemma convertBack_in_range:
  assumes "m (start + OUTPUT_OFFSET) = Some a" and "a < length origToks"
    and "m (end' + OUTPUT_OFFSET) = Some b" and "b < length origToks"
  shows "convertBack origToks m start end' ctx =
     Inr (trim (slice ctx (index_tok (origToks ! a))
                 (nat ((if int b < int (length origToks) - 1
                        then int (index_tok (origToks ! (b + 1))) - 1
                        else int (index_tok (origToks ! b)) + int (length (text_tok (origToks ! b)))) + 1))),
          int (index_tok (origToks ! a)),
          (if int b < int (length origToks) - 1
           then int (index_tok (origToks ! (b + 1))) - 1
           else int (index_tok (origToks ! b)) + int (length (text_tok (origToks ! b)))))"
  using assms by (simp add: convertBack_def Let_def)

section \<open>The loop over the sorted candidates\<close>

lemma answers_loop_sound:
  "answers_loop origToks m ctx ident i rs = Inr answers \<Longrightarrow>
     length answers \<le> PREDICT_ANSWER_NUM - i \<and>
     length answers \<le> length rs \<and>
     (\<forall>j<length answers.
        NO_ANSWER_THRESHOLD \<le> score_ans (answers ! j) \<and>
        score_ans (answers ! j) = score_ai (rs ! j) \<and>
        context_ans (answers ! j) = ctx \<and> id_ans (answers ! j) = ident \<and>
        (if 0 < start_ai (rs ! j)
         then convertBack origToks m (start_ai (rs ! j)) (end_ai (rs ! j)) ctx
                = Inr (text_ans (answers ! j), startIndex (answers ! j), endIndex (answers ! j))
         else text_ans (answers ! j) = [] \<and> startIndex (answers ! j) = 0 \<and> endIndex (answers ! j) = 0))"
proof (induction rs arbitrary: i answers)
  case Nil
  then show ?case by simp
next
  case (Cons r rs)
  show ?case
  proof (cases "PREDICT_ANSWER_NUM \<le> i \<or> score_ai r < NO_ANSWER_THRESHOLD")
    case True
    with Cons.prems show ?thesis by simp
  next
    case False
    from Cons.prems False obtain t s e rest
      where conv: "(if 0 < start_ai r then convertBack origToks m (start_ai r) (end_ai r) ctx
               else Inr ('''', 0, 0)) = Inr (t, s, e)"
        and rest: "answers_loop origToks m ctx ident (i + 1) rs = Inr rest"
        and ans: "answers = \<lparr>text_ans = t, startIndex = s, endIndex = e,
                        score_ans = score_ai r, context_ans = ctx, id_ans = ident\<rparr> # rest"
      by (auto split: sum.splits prod.splits)
    note ih = Cons.IH [OF rest]
    show ?thesis
    proof (intro conjI allI impI)
      show "length answers \<le> PREDICT_ANSWER_NUM - i" using ih False ans by auto
      show "length answers \<le> length (r # rs)" using ih ans by simp
    next
      fix j assume j: "j < length answers"
      show "NO_ANSWER_THRESHOLD \<le> score_ans (answers ! j)"
        using ih False ans j by (cases j) auto
      show "score_ans (answers ! j) = score_ai ((r # rs) ! j)"
        using ih ans j by (cases j) auto
      show "context_ans (answers ! j) = ctx"
        using ih ans j by (cases j) auto
      show "id_ans (answers ! j) = ident"
        using ih ans j by (cases j) auto
      show "if 0 < start_ai ((r # rs) ! j)
         then convertBack origToks m (start_ai ((r # rs) ! j)) (end_ai ((r # rs) ! j)) ctx
                = Inr (text_ans (answers ! j), startIndex (answers ! j), endIndex (answers ! j))
         else text_ans (answers ! j) = [] \<and> startIndex (answers ! j) = 0 \<and> endIndex (answers ! j) = 0"
      proof (cases j)
        case 0
        with conv ans show ?thesis by (auto split: if_splits)
      next
        case (Suc j')
        with ih ans j show ?thesis by simp
      qed
    qed
  qed
qed

lemma answers_loop_returns:
  assumes "\<forall>r\<in>set rs. 0 < start_ai r \<longrightarrow>
             (\<exists>x. convertBack origToks m (start_ai r) (end_ai r) ctx = Inr x)"
  shows "\<exists>answers. answers_loop origToks m ctx ident i rs = Inr answers"
  using assms
proof (induction rs arbitrary: i)
  case Nil
  then show ?case by simp
next
  case (Cons r rs)
  then obtain rest where rest: "answers_loop origToks m ctx ident (i + 1) rs = Inr rest"
    by fastforce
  show ?case
  proof (cases "0 < start_ai r")
    case True
    with Cons.prems obtain x where "convertBack origToks m (start_ai r) (end_ai r) ctx = Inr x"
      by auto
    with True rest show ?thesis by (cases x) auto
  next
    case False
    with rest show ?thesis by auto
  qed
qed

section \<open>The answers of a feature\<close>



lemma getBestAnswers_sound:
  assumes "getBestAnswers startLogits endLogits origToks m ctx docIndex ident = Inr answers"
  shows "length answers \<le> PREDICT_ANSWER_NUM"
    and "\<forall>a\<in>set answers. NO_ANSWER_THRESHOLD \<le> score_ans a"
    and "\<forall>a\<in>set answers. \<exists>r\<in>set (origResults startLogits endLogits m).
           score_ans a = score_ai r \<and>
           (if 0 < start_ai r
            then convertBack origToks m (start_ai r) (end_ai r) ctx
                   = Inr (text_ans a, startIndex a, endIndex a)
            else text_ans a = [] \<and> startIndex a = 0 \<and> endIndex a = 0)"
proof -
  let ?rs = "sort_key (\<lambda>a. - score_ai a) (origResults startLogits endLogits m)"
  from assms have run: "answers_loop origToks m ctx ident 0 ?rs = Inr answers"
    by (simp add: getBestAnswers_def)
  note s = answers_loop_sound [OF run]
  from s show "length answers \<le> PREDICT_ANSWER_NUM" by simp
  from s show "\<forall>a\<in>set answers. NO_ANSWER_THRESHOLD \<le> score_ans a"
    by (auto simp add: in_set_conv_nth)
  show "\<forall>a\<in>set answers. \<exists>r\<in>set (origResults startLogits endLogits m).
           score_ans a = score_ai r \<and>
           (if 0 < start_ai r
            then convertBack origToks m (start_ai r) (end_ai r) ctx
                   = Inr (text_ans a, startIndex a, endIndex a)
            else text_ans a = [] \<and> startIndex a = 0 \<and> endIndex a = 0)"
  proof
    fix a assume "a \<in> set answers"
    then obtain j where j: "j < length answers" "a = answers ! j"
      by (auto simp add: in_set_conv_nth)
    with s have jr: "j < length ?rs" by simp
    then have "?rs ! j \<in> set ?rs" by (rule nth_mem)
    then have mem: "?rs ! j \<in> set (origResults startLogits endLogits m)" by simp
    from s j have "score_ans a = score_ai (?rs ! j) \<and>
           (if 0 < start_ai (?rs ! j)
            then convertBack origToks m (start_ai (?rs ! j)) (end_ai (?rs ! j)) ctx
                   = Inr (text_ans a, startIndex a, endIndex a)
            else text_ans a = [] \<and> startIndex a = 0 \<and> endIndex a = 0)"
      by simp
    with mem show "\<exists>r\<in>set (origResults startLogits endLogits m).
           score_ans a = score_ai r \<and>
           (if 0 < start_ai r
            then convertBack origToks m (start_ai r) (end_ai r) ctx
                   = Inr (text_ans a, startIndex a, endIndex a)
            else text_ans a = [] \<and> startIndex a = 0 \<and> endIndex a = 0)"
      by blast
  qed
qed

lemma getBestAnswers_returns:
  assumes "\<forall>p v. m p = Some v \<longrightarrow> v < length origToks"
  shows "\<exists>answers. getBestAnswers startLogits endLogits origToks m ctx docIndex ident = Inr answers"
proof -
  have "\<forall>r\<in>set (sort_key (\<lambda>a. - score_ai a) (origResults startLogits endLogits m)).
          0 < start_ai r \<longrightarrow> (\<exists>x. convertBack origToks m (start_ai r) (end_ai r) ctx = Inr x)"
  proof (intro ballI impI)
    fix r assume "r \<in> set (sort_key (\<lambda>a. - score_ai a) (origResults startLogits endLogits m))"
    then have "r \<in> set (origResults startLogits endLogits m)" by simp
    then have "truthy (m (start_ai r + OUTPUT_OFFSET))" and "truthy (m (end_ai r + OUTPUT_OFFSET))"
      by (simp_all add: origResults_iff)
    then obtain a b where ab: "m (start_ai r + OUTPUT_OFFSET) = Some a" "m (end_ai r + OUTPUT_OFFSET) = Some b"
      by (auto simp add: truthy_Some)
    with assms have "a < length origToks" "b < length origToks" by blast+
    from convertBack_in_range [OF ab(1) this(1) ab(2) this(2)]
    show "\<exists>x. convertBack origToks m (start_ai r) (end_ai r) ctx = Inr x" by blast
  qed
  then show ?thesis
    unfolding getBestAnswers_def by (rule answers_loop_returns)
qed

section \<open>The merge\<close>

lemma collect_Inr: "collect xs = Inr ys \<Longrightarrow> xs = map Inr ys"
  by (induction xs arbitrary: ys rule: collect.induct) (auto split: sum.splits)

lemma collect_returns: "\<forall>x\<in>set xs. \<exists>y. x = Inr y \<Longrightarrow> \<exists>ys. collect xs = Inr ys"
  by (induction xs rule: collect.induct) auto


section \<open>The features of \<open>process\<close>\<close>

lemma process_feature_shape:
  assumes "process tk query context maxQueryLen maxSeqLen docStride = Some (Inr features)"
    and "subTokens_loop tk (processInput tk (trim context)) 0 [] [] = (tokenToOrigIndex, allDocTokens)"
    and "f \<in> set features"
    and "queryTokens = tokenize tk (normalizeQuery query)"
  shows "\<exists>st k. 0 < k \<and> st + k \<le> length allDocTokens \<and>
           tokenToOrigMap f =
             (\<lambda>p. if length queryTokens + 2 < p \<and> p \<le> length queryTokens + 2 + k
                   then Some (tokenToOrigIndex ! (st + (p - length queryTokens - 3))) else None) \<and>
           origTokens f = processInput tk (trim context) \<and>
           inputIds f = CLS_INDEX tk # queryTokens @ [SEP_INDEX tk]
              @ map (\<lambda>i. allDocTokens ! (st + i)) [0..<k] @ [SEP_INDEX tk]
              @ replicate (nat (maxSeqLen - int (length queryTokens + k + 3))) 0"
proof -
  from process_features [OF assms(1,2)] assms(4) obtain docSpans
    where loop: "docSpans_loop (int (length allDocTokens))
                   (maxSeqLen - int (length queryTokens) - 3) docStride 0 [] = Some docSpans"
      and fs: "features = map (buildFeature tk queryTokens (processInput tk (trim context))
                   tokenToOrigIndex allDocTokens maxSeqLen) docSpans"
    by auto
  from fs assms(3) obtain w where w: "w \<in> set docSpans"
    and f: "f = buildFeature tk queryTokens (processInput tk (trim context))
                   tokenToOrigIndex allDocTokens maxSeqLen w"
    by auto
  from docSpans_loop_windows(2) [OF loop] w
  have r: "0 \<le> start_span w" "0 < length_span w"
    "start_span w + length_span w \<le> int (length allDocTokens)"
    by auto
  let ?st = "nat (start_span w)" and ?k = "nat (length_span w)"
  have 1: "0 < ?k" "?st + ?k \<le> length allDocTokens" using r by auto
  have 2: "tokenToOrigMap f =
             (\<lambda>p. if length queryTokens + 2 < p \<and> p \<le> length queryTokens + 2 + ?k
                   then Some (tokenToOrigIndex ! (?st + (p - length queryTokens - 3))) else None)"
  proof (rule ext)
    fix p
    have idx: "nat (int (p - length queryTokens - 3) + start_span w)
            = nat (start_span w) + (p - length queryTokens - 3)"
      using r(1) by arith
    show "tokenToOrigMap f p =
        (if length queryTokens + 2 < p \<and> p \<le> length queryTokens + 2 + ?k
         then Some (tokenToOrigIndex ! (?st + (p - length queryTokens - 3))) else None)"
      unfolding f tokenToOrigMap_buildFeature idx by (rule refl)
  qed
  have "map (\<lambda>i. allDocTokens ! nat (int i + start_span w)) [0..<?k]
        = map (\<lambda>i. allDocTokens ! (?st + i)) [0..<?k]"
  proof -
    have "nat (int i + start_span w) = nat (start_span w) + i" for i
      using r(1) by arith
    then show ?thesis by simp
  qed
  then have 3: "inputIds f = CLS_INDEX tk # queryTokens @ [SEP_INDEX tk]
              @ map (\<lambda>i. allDocTokens ! (?st + i)) [0..<?k] @ [SEP_INDEX tk]
              @ replicate (nat (maxSeqLen - int (length queryTokens + ?k + 3))) 0"
    unfolding f inputIds_buildFeature by simp
  have 4: "origTokens f = processInput tk (trim context)"
    unfolding f by (rule origTokens_buildFeature)
  from 1 2 3 4 show ?thesis by blast
qed

lemma process_feature_map_in_range:
  assumes "process tk query context maxQueryLen maxSeqLen docStride = Some (Inr features)"
    and "f \<in> set features"
  shows "\<forall>p v. tokenToOrigMap f p = Some v \<longrightarrow>
           v < length (origTokens f) \<and> length (tokenize tk (normalizeQuery query)) + 3 \<le> p"
proof -
  obtain tokenToOrigIndex allDocTokens
    where sub: "subTokens_loop tk (processInput tk (trim context)) 0 [] [] = (tokenToOrigIndex, allDocTokens)"
    by (cases "subTokens_loop tk (processInput tk (trim context)) 0 [] []") auto
  from process_feature_shape [OF assms(1) sub assms(2) refl] obtain st k
    where k: "st + k \<le> length allDocTokens"
      and m: "tokenToOrigMap f =
             (\<lambda>p. if length (tokenize tk (normalizeQuery query)) + 2 < p
                     \<and> p \<le> length (tokenize tk (normalizeQuery query)) + 2 + k
                   then Some (tokenToOrigIndex ! (st + (p - length (tokenize tk (normalizeQuery query)) - 3)))
                   else None)"
      and o: "origTokens f = processInput tk (trim context)"
    by blast
  note s = subTokens_loop_sound [OF sub]
  show ?thesis
  proof (intro allI impI)
    fix p v assume "tokenToOrigMap f p = Some v"
    with m have p: "length (tokenize tk (normalizeQuery query)) + 2 < p"
        "p \<le> length (tokenize tk (normalizeQuery query)) + 2 + k"
      and v: "v = tokenToOrigIndex ! (st + (p - length (tokenize tk (normalizeQuery query)) - 3))"
      by (auto split: if_splits)
    from p k have "st + (p - length (tokenize tk (normalizeQuery query)) - 3) < length allDocTokens"
      by simp
    with s(2) v o p(1)
    show "v < length (origTokens f) \<and> length (tokenize tk (normalizeQuery query)) + 3 \<le> p"
      by simp
  qed
qed

text \<open>
  The three arrays of a feature have exactly \<open>maxSeqLen\<close> entries: the shape
  \<open>[batchSize, INPUT_SIZE]\<close> that lines 231--236 give the tensors.
\<close>

lemma buildFeature_lengths:
  "length (inputIds (buildFeature tk queryTokens origToks tokenToOrigIndex allDocTokens maxSeqLen docSpan))
     = length queryTokens + nat (length_span docSpan) + 3
       + nat (maxSeqLen - int (length queryTokens + nat (length_span docSpan) + 3)) \<and>
   length (inputMask (buildFeature tk queryTokens origToks tokenToOrigIndex allDocTokens maxSeqLen docSpan))
     = length (inputIds (buildFeature tk queryTokens origToks tokenToOrigIndex allDocTokens maxSeqLen docSpan)) \<and>
   length (segmentIds (buildFeature tk queryTokens origToks tokenToOrigIndex allDocTokens maxSeqLen docSpan))
     = length (inputIds (buildFeature tk queryTokens origToks tokenToOrigIndex allDocTokens maxSeqLen docSpan))"
  by (simp add: buildFeature_def fold_window_step Let_def)

lemma process_feature_lengths:
  assumes "process tk query ctx maxQueryLen maxSeqLen docStride = Some (Inr features)"
    and "f \<in> set features"
  shows "length (inputIds f) = nat maxSeqLen \<and> length (inputMask f) = nat maxSeqLen \<and>
         length (segmentIds f) = nat maxSeqLen"
proof -
  obtain tokenToOrigIndex allDocTokens
    where sub: "subTokens_loop tk (processInput tk (trim ctx)) 0 [] [] = (tokenToOrigIndex, allDocTokens)"
    by (cases "subTokens_loop tk (processInput tk (trim ctx)) 0 [] []") auto
  let ?q = "tokenize tk (normalizeQuery query)"
  from process_features [OF assms(1) sub] obtain docSpans
    where loop: "docSpans_loop (int (length allDocTokens))
                   (maxSeqLen - int (length ?q) - 3) docStride 0 [] = Some docSpans"
      and fs: "features = map (buildFeature tk ?q (processInput tk (trim ctx))
                   tokenToOrigIndex allDocTokens maxSeqLen) docSpans"
    by auto
  from fs assms(2) obtain w where w: "w \<in> set docSpans"
    and f: "f = buildFeature tk ?q (processInput tk (trim ctx))
                   tokenToOrigIndex allDocTokens maxSeqLen w"
    by auto
  from docSpans_loop_windows(2) [OF loop] w
  have "0 < length_span w" "length_span w \<le> maxSeqLen - int (length ?q) - 3"
    by auto
  then have "int (length ?q + nat (length_span w) + 3) \<le> maxSeqLen" by simp
  then have "length ?q + nat (length_span w) + 3
       + nat (maxSeqLen - int (length ?q + nat (length_span w) + 3)) = nat maxSeqLen"
    by arith
  with buildFeature_lengths [of tk ?q "processInput tk (trim ctx)" tokenToOrigIndex allDocTokens maxSeqLen w]
  show ?thesis unfolding f by simp
qed

section \<open>\<open>findAnswers\<close> returns\<close>

lemma process_returns:
  assumes "0 < maxSeqLen - int (length (tokenize tk (normalizeQuery query))) - 3" and "0 < docStride"
  shows "\<exists>r. process tk query context maxQueryLen maxSeqLen docStride = Some r"
proof (cases "maxQueryLen < int (length (tokenize tk (normalizeQuery query)))")
  case True
  from process_too_long [OF this] show ?thesis by blast
next
  case False
  obtain tokenToOrigIndex allDocTokens
    where sub: "subTokens_loop tk (processInput tk (trim context)) 0 [] [] = (tokenToOrigIndex, allDocTokens)"
    by (cases "subTokens_loop tk (processInput tk (trim context)) 0 [] []") auto
  from docSpans_loop_returns [OF assms] obtain docSpans
    where "docSpans_loop (int (length allDocTokens))
       (maxSeqLen - int (length (tokenize tk (normalizeQuery query))) - 3) docStride 0 [] = Some docSpans"
    by blast
  with process_not_too_long [OF False sub, of maxSeqLen docStride] show ?thesis by simp
qed

lemma findAnswers_too_long:
  assumes "MAX_QUERY_LEN < int (length (tokenize tk (normalizeQuery q)))"
  shows "findAnswers tk execute (Some q) (Some c) ident = Some (Inl (InputTooLong MAX_QUERY_LEN))"
  using process_too_long [OF assms] by (simp add: findAnswers_def)

lemma findAnswers_decodes:
  assumes "\<not> MAX_QUERY_LEN < int (length (tokenize tk (normalizeQuery q)))"
  shows "\<exists>features perFeature.
           process tk q c MAX_QUERY_LEN (int MAX_SEQ_LEN) 128 = Some (Inr features) \<and>
           length perFeature = length features \<and>
           (\<forall>i<length features.
              getBestAnswers
                (fst (execute (map inputIds features) (map segmentIds features) (map inputMask features)) ! i)
                (snd (execute (map inputIds features) (map segmentIds features) (map inputMask features)) ! i)
                (origTokens (features ! i)) (tokenToOrigMap (features ! i)) c i ident
              = Inr (perFeature ! i)) \<and>
           findAnswers tk execute (Some q) (Some c) ident = Some (Inr (merge_answers perFeature))"
proof -
  have "0 < int MAX_SEQ_LEN - int (length (tokenize tk (normalizeQuery q))) - 3"
    using assms by (simp add: MAX_SEQ_LEN_def MAX_QUERY_LEN_def)
  from process_returns [OF this, of 128 c MAX_QUERY_LEN] obtain r
    where r: "process tk q c MAX_QUERY_LEN (int MAX_SEQ_LEN) 128 = Some r" by auto
  obtain tokenToOrigIndex allDocTokens
    where sub: "subTokens_loop tk (processInput tk (trim c)) 0 [] [] = (tokenToOrigIndex, allDocTokens)"
    by (cases "subTokens_loop tk (processInput tk (trim c)) 0 [] []") auto
  from process_not_too_long [OF assms sub, of "int MAX_SEQ_LEN" 128] r
  have "\<exists>features. r = Inr features"
    by (cases "docSpans_loop (int (length allDocTokens))
         (int MAX_SEQ_LEN - int (length (tokenize tk (normalizeQuery q))) - 3) 128 0 []") auto
  with r obtain features
    where fs: "process tk q c MAX_QUERY_LEN (int MAX_SEQ_LEN) 128 = Some (Inr features)"
    by auto
  let ?logits = "execute (map inputIds features) (map segmentIds features) (map inputMask features)"
  let ?calls = "map (\<lambda>i. getBestAnswers (fst ?logits ! i) (snd ?logits ! i)
                       (origTokens (features ! i)) (tokenToOrigMap (features ! i)) c i ident)
                  [0..<length features]"
  have "\<forall>x\<in>set ?calls. \<exists>y. x = Inr y"
  proof
    fix x assume "x \<in> set ?calls"
    then obtain i where i: "i < length features"
      and x: "x = getBestAnswers (fst ?logits ! i) (snd ?logits ! i)
                       (origTokens (features ! i)) (tokenToOrigMap (features ! i)) c i ident"
      by auto
    from i have "features ! i \<in> set features" by simp
    from process_feature_map_in_range [OF fs this]
    have "\<forall>p v. tokenToOrigMap (features ! i) p = Some v \<longrightarrow> v < length (origTokens (features ! i))"
      by blast
    from getBestAnswers_returns [OF this] x show "\<exists>y. x = Inr y" by blast
  qed
  from collect_returns [OF this] obtain perFeature where col: "collect ?calls = Inr perFeature"
    by blast
  from collect_Inr [OF col] have eq: "?calls = map Inr perFeature" .
  have len: "length perFeature = length features"
    using arg_cong [OF eq, of length] by simp
  have each: "\<forall>i<length features.
              getBestAnswers (fst ?logits ! i) (snd ?logits ! i)
                (origTokens (features ! i)) (tokenToOrigMap (features ! i)) c i ident
              = Inr (perFeature ! i)"
  proof (intro allI impI)
    fix i assume i: "i < length features"
    then have "?calls ! i = map Inr perFeature ! i" using eq by simp
    with i len show "getBestAnswers (fst ?logits ! i) (snd ?logits ! i)
                (origTokens (features ! i)) (tokenToOrigMap (features ! i)) c i ident
              = Inr (perFeature ! i)"
      by simp
  qed
  have fa: "findAnswers tk execute (Some q) (Some c) ident = Some (Inr (merge_answers perFeature))"
    using fs col by (simp add: findAnswers_def Let_def)
  show ?thesis
    by (intro exI [of _ features] exI [of _ perFeature] conjI fs len each fa)
qed

section \<open>The example: the question \<open>q\<close> and the passage \<open>a b\<close>\<close>

lemma example_query: "tokenize example_tokenizer (normalizeQuery ''q'') = [113, 63]"
  by (simp add: normalizeQuery_def example_tokenizer_def trim_def isWhiteSpace_def)

lemma example_tokens:
  "processInput example_tokenizer (trim ''a b'') =
     [\<lparr>text_tok = ''a'', index_tok = 0\<rparr>, \<lparr>text_tok = ''b'', index_tok = 2\<rparr>]"
  "processInput example_tokenizer (trim ''  a b'') =
     [\<lparr>text_tok = ''a'', index_tok = 0\<rparr>, \<lparr>text_tok = ''b'', index_tok = 2\<rparr>]"
  by (simp_all add: example_tokenizer_def trim_def isWhiteSpace_def)

lemma example_subTokens:
  "subTokens_loop example_tokenizer
     [\<lparr>text_tok = ''a'', index_tok = 0\<rparr>, \<lparr>text_tok = ''b'', index_tok = 2\<rparr>] 0 [] []
   = ([0, 1], [97, 98])"
  by (simp add: example_tokenizer_def)

lemma example_process:
  "process example_tokenizer ''q'' ''a b'' MAX_QUERY_LEN (int MAX_SEQ_LEN) 128 = Some (Inr [example_feature])"
  "process example_tokenizer ''q'' ''  a b'' MAX_QUERY_LEN (int MAX_SEQ_LEN) 128 = Some (Inr [example_feature])"
  unfolding process_def example_query example_tokens example_subTokens example_feature_def Let_def
  by (simp_all add: docSpans_loop.simps MAX_QUERY_LEN_def MAX_SEQ_LEN_def)

lemma example_map:
  "tokenToOrigMap example_feature = (\<lambda>p. if p = 5 then Some 0 else if p = 6 then Some 1 else None)"
proof (rule ext)
  fix p :: nat
  consider "p \<le> 4" | "p = 5" | "p = 6" | "7 \<le> p" by linarith
  then show "tokenToOrigMap example_feature p = (if p = 5 then Some 0 else if p = 6 then Some 1 else None)"
    by cases (simp_all add: example_feature_def tokenToOrigMap_buildFeature)
qed

lemma example_origTokens:
  "origTokens example_feature =
     [\<lparr>text_tok = ''a'', index_tok = 0\<rparr>, \<lparr>text_tok = ''b'', index_tok = 2\<rparr>]"
  by (simp add: example_feature_def origTokens_buildFeature)

lemma example_inputIds:
  "take 7 (inputIds example_feature) = [101, 113, 63, 102, 97, 98, 102]"
  by (simp add: example_feature_def inputIds_buildFeature example_tokenizer_def upt_conv_Cons)

lemma getBestIndex_peak_at:
  assumes "4 \<le> k" and "k < MAX_SEQ_LEN"
  shows "getBestIndex (peak_at k) = [k, 0, 1, 2, 3]"
  using assms by (intro getBestIndex_spike [where c = 0]) (simp_all add: peak_at_def)

lemma nth_peak_at: "k < MAX_SEQ_LEN \<Longrightarrow> peak_at k ! k = 10"
  by (simp add: peak_at_def)

lemma example_candidates:
  "origResults (peak_at 5) (peak_at 5) (tokenToOrigMap example_feature)
     = [\<lparr>start_ai = 5, end_ai = 5, score_ai = 20\<rparr>]"
  "origResults (peak_at 4) (peak_at 4) (tokenToOrigMap example_feature) = []"
  by (simp_all add: origResults_def getBestIndex_peak_at nth_peak_at example_map truthy_def
        MAX_SEQ_LEN_def OUTPUT_OFFSET_def MAX_ANSWER_LEN_def)

lemma example_answers:
  "getBestAnswers (peak_at 5) (peak_at 5) (origTokens example_feature) (tokenToOrigMap example_feature)
       ''a b'' 0 None
     = Inr [\<lparr>text_ans = ''b'', startIndex = 2, endIndex = 3, score_ans = 20,
              context_ans = ''a b'', id_ans = None\<rparr>]"
  "getBestAnswers (peak_at 5) (peak_at 5) (origTokens example_feature) (tokenToOrigMap example_feature)
       ''  a b'' 0 None
     = Inr [\<lparr>text_ans = ''a'', startIndex = 2, endIndex = 3, score_ans = 20,
              context_ans = ''  a b'', id_ans = None\<rparr>]"
  "getBestAnswers (peak_at 4) (peak_at 4) (origTokens example_feature) (tokenToOrigMap example_feature)
       ''a b'' 0 None
     = Inr []"
  unfolding getBestAnswers_def example_candidates
  by (simp_all add: example_origTokens convertBack_def
        example_map OUTPUT_OFFSET_def PREDICT_ANSWER_NUM_def NO_ANSWER_THRESHOLD_def
        slice_def trim_def isWhiteSpace_def)

lemma example_findAnswers:
  "findAnswers example_tokenizer (\<lambda>ids segs mask. ([peak_at 5], [peak_at 5])) (Some ''q'') (Some ''a b'') None
     = Some (Inr [\<lparr>text_ans = ''b'', startIndex = 2, endIndex = 3, score_ans = 20,
                   context_ans = ''a b'', id_ans = None\<rparr>])"
  "findAnswers example_tokenizer (\<lambda>ids segs mask. ([peak_at 5], [peak_at 5])) (Some ''q'') (Some ''  a b'') None
     = Some (Inr [\<lparr>text_ans = ''a'', startIndex = 2, endIndex = 3, score_ans = 20,
                   context_ans = ''  a b'', id_ans = None\<rparr>])"
  "findAnswers example_tokenizer (\<lambda>ids segs mask. ([peak_at 4], [peak_at 4])) (Some ''q'') (Some ''a b'') None
     = Some (Inr [])"
  by (simp_all add: findAnswers_def example_process example_answers merge_answers_def
        PREDICT_ANSWER_NUM_def)

section \<open>Claims about errors\<close>

text \<open>
  Claim C7. \<open>findAnswers\<close> fails with \<open>InvalidInput\<close> exactly when the question or the
  context is absent; and then it fails so whatever the tokenizer and the model are, that
  is, before either is called.
\<close>

theorem invalid_input_iff_null:
  "(findAnswers tk execute question ctx ident = Some (Inl InvalidInput)
      \<longleftrightarrow> question = None \<or> ctx = None) \<and>
   (question = None \<or> ctx = None \<longrightarrow>
      (\<forall>tk' execute'. findAnswers tk' execute' question ctx ident = Some (Inl InvalidInput)))"
proof (cases question)
  case None
  then show ?thesis by (simp add: findAnswers_def)
next
  case q: (Some q)
  show ?thesis
  proof (cases ctx)
    case None
    with q show ?thesis by (simp add: findAnswers_def)
  next
    case (Some c)
    have "findAnswers tk execute (Some q) (Some c) ident \<noteq> Some (Inl InvalidInput)"
    proof (cases "MAX_QUERY_LEN < int (length (tokenize tk (normalizeQuery q)))")
      case True
      from findAnswers_too_long [OF this] show ?thesis by simp
    next
      case False
      from findAnswers_decodes [OF this, where ?execute = execute and ?c = c and ?ident = ident]
      show ?thesis by auto
    qed
    with q Some show ?thesis by simp
  qed
qed

text \<open>The scenario of the specification, and a call with both arguments present.\<close>

theorem invalid_input_iff_null_witness:
  "findAnswers example_tokenizer (\<lambda>ids segs mask. ([], [])) None (Some ''some context'') None
     = Some (Inl InvalidInput) \<and>
   findAnswers example_tokenizer (\<lambda>ids segs mask. ([], [])) (Some ''q'') (Some '''') None
     \<noteq> Some (Inl InvalidInput)"
  using invalid_input_iff_null [of example_tokenizer "\<lambda>ids segs mask. ([], [])" None "Some ''some context''" None]
    invalid_input_iff_null [of example_tokenizer "\<lambda>ids segs mask. ([], [])" "Some ''q''" "Some ''''" None]
  by simp

text \<open>
  Claim C8. \<open>process\<close> fails with \<open>InputTooLong\<close> exactly when the normalised question
  has more than \<open>maxQueryLen\<close> sub-words, and with no other error; when it returns
  features, each starts with the classification marker, all the sub-words of the question
  and the separator (nothing is cut); and \<open>findAnswers\<close>, given a question and a context,
  fails exactly when the question has more than \<open>MAX_QUERY_LEN\<close> sub-words, with that
  error and no other.
\<close>

theorem question_too_long_iff:
  "(process tk query ctx maxQueryLen maxSeqLen docStride = Some (Inl (InputTooLong maxQueryLen))
      \<longleftrightarrow> maxQueryLen < int (length (tokenize tk (normalizeQuery query)))) \<and>
   (\<forall>e. process tk query ctx maxQueryLen maxSeqLen docStride = Some (Inl e)
      \<longrightarrow> e = InputTooLong maxQueryLen) \<and>
   (\<forall>features. process tk query ctx maxQueryLen maxSeqLen docStride = Some (Inr features) \<longrightarrow>
      (\<forall>f\<in>set features.
         take (length (tokenize tk (normalizeQuery query)) + 2) (inputIds f)
           = CLS_INDEX tk # tokenize tk (normalizeQuery query) @ [SEP_INDEX tk])) \<and>
   (findAnswers tk execute (Some query) (Some ctx) ident = Some (Inl (InputTooLong MAX_QUERY_LEN))
      \<longleftrightarrow> MAX_QUERY_LEN < int (length (tokenize tk (normalizeQuery query)))) \<and>
   (\<forall>e. findAnswers tk execute (Some query) (Some ctx) ident = Some (Inl e)
      \<longrightarrow> e = InputTooLong MAX_QUERY_LEN)"
proof -
  obtain tokenToOrigIndex allDocTokens
    where sub: "subTokens_loop tk (processInput tk (trim ctx)) 0 [] [] = (tokenToOrigIndex, allDocTokens)"
    by (cases "subTokens_loop tk (processInput tk (trim ctx)) 0 [] []") auto
  have p: "process tk query ctx maxQueryLen maxSeqLen docStride = Some (Inl e)
      \<longleftrightarrow> (maxQueryLen < int (length (tokenize tk (normalizeQuery query))) \<and> e = InputTooLong maxQueryLen)"
    for e
  proof (cases "maxQueryLen < int (length (tokenize tk (normalizeQuery query)))")
    case True
    from process_too_long [OF this, of ctx maxSeqLen docStride] True show ?thesis by auto
  next
    case False
    from process_not_too_long [OF this sub] False show ?thesis by auto
  qed
  have t: "\<forall>f\<in>set features.
         take (length (tokenize tk (normalizeQuery query)) + 2) (inputIds f)
           = CLS_INDEX tk # tokenize tk (normalizeQuery query) @ [SEP_INDEX tk]"
    if "process tk query ctx maxQueryLen maxSeqLen docStride = Some (Inr features)" for features
  proof
    fix f assume "f \<in> set features"
    from process_feature_shape [OF that sub this refl] obtain st k
      where "inputIds f = CLS_INDEX tk # tokenize tk (normalizeQuery query) @ [SEP_INDEX tk]
              @ map (\<lambda>i. allDocTokens ! (st + i)) [0..<k] @ [SEP_INDEX tk]
              @ replicate (nat (maxSeqLen - int (length (tokenize tk (normalizeQuery query)) + k + 3))) 0"
      by blast
    then show "take (length (tokenize tk (normalizeQuery query)) + 2) (inputIds f)
           = CLS_INDEX tk # tokenize tk (normalizeQuery query) @ [SEP_INDEX tk]"
      by simp
  qed
  have f: "findAnswers tk execute (Some query) (Some ctx) ident = Some (Inl e)
      \<longleftrightarrow> (MAX_QUERY_LEN < int (length (tokenize tk (normalizeQuery query))) \<and> e = InputTooLong MAX_QUERY_LEN)"
    for e
  proof (cases "MAX_QUERY_LEN < int (length (tokenize tk (normalizeQuery query)))")
    case True
    from findAnswers_too_long [OF this, of execute ctx ident] True show ?thesis by auto
  next
    case False
    from findAnswers_decodes [OF this, where ?execute = execute and ?c = ctx and ?ident = ident] False
    show ?thesis by auto
  qed
  from p t f show ?thesis by blast
qed

lemma long_question:
  "MAX_QUERY_LEN < int (length (tokenize example_tokenizer
      (normalizeQuery ''aaaaaaaaaaaaaaaaaaaaaaaaaaaaaaaaaaaaaaaaaaaaaaaaaaaaaaaaaaaaaaaa'')))"
  by (simp add: normalizeQuery_def trim_def isWhiteSpace_def example_tokenizer_def MAX_QUERY_LEN_def)

text \<open>A question of 64 letters has 65 sub-words with its question mark.\<close>

theorem question_too_long_iff_witness:
  "process example_tokenizer ''aaaaaaaaaaaaaaaaaaaaaaaaaaaaaaaaaaaaaaaaaaaaaaaaaaaaaaaaaaaaaaaa'' ''a b''
     MAX_QUERY_LEN (int MAX_SEQ_LEN) 128 = Some (Inl (InputTooLong MAX_QUERY_LEN)) \<and>
   findAnswers example_tokenizer (\<lambda>ids segs mask. ([], []))
     (Some ''aaaaaaaaaaaaaaaaaaaaaaaaaaaaaaaaaaaaaaaaaaaaaaaaaaaaaaaaaaaaaaaa'') (Some ''a b'') None
     = Some (Inl (InputTooLong MAX_QUERY_LEN))"
  using question_too_long_iff [of example_tokenizer
      "''aaaaaaaaaaaaaaaaaaaaaaaaaaaaaaaaaaaaaaaaaaaaaaaaaaaaaaaaaaaaaaaa''" "''a b''"
      MAX_QUERY_LEN "int MAX_SEQ_LEN" 128 "\<lambda>ids segs mask. ([], [])" None]
    long_question
  by blast

section \<open>Claims about the decoder\<close>





text \<open>
  Claim C10. For every feature that \<open>process\<close> returns: the smallest key of its
  \<open>tokenToOrigMap\<close> is \<open>queryTokens.length + 3\<close>, so the key \<open>0 + OUTPUT_OFFSET\<close> of the
  classification marker is not in the map; no candidate of \<open>getBestAnswers\<close> has
  \<open>start = 0\<close>, whatever the logits; \<open>getBestAnswers\<close> returns, and each of its answers is
  what \<open>convertBack\<close> returned for a candidate with \<open>0 < start\<close> (the branch of line 309 is
  never taken). When every original token but the first starts after offset 0, as the
  words of a text do, every answer has \<open>0 < startIndex\<close>, so none is the triple of the
  empty text and the offsets 0 and 0.
\<close>

theorem no_answer_branch_unreachable:
  assumes "process tk query ctx maxQueryLen maxSeqLen docStride = Some (Inr features)"
    and "f \<in> set features"
  shows "tokenToOrigMap f (length (tokenize tk (normalizeQuery query)) + 3) \<noteq> None \<and>
         (\<forall>p\<in>dom (tokenToOrigMap f). length (tokenize tk (normalizeQuery query)) + 3 \<le> p) \<and>
         tokenToOrigMap f (0 + OUTPUT_OFFSET) = None \<and>
         (\<forall>r\<in>set (origResults startLogits endLogits (tokenToOrigMap f)). 0 < start_ai r) \<and>
         (\<exists>answers.
            getBestAnswers startLogits endLogits (origTokens f) (tokenToOrigMap f) c docIndex ident
              = Inr answers \<and>
            (\<forall>a\<in>set answers. \<exists>r\<in>set (origResults startLogits endLogits (tokenToOrigMap f)).
               0 < start_ai r \<and> score_ans a = score_ai r \<and>
               convertBack (origTokens f) (tokenToOrigMap f) (start_ai r) (end_ai r) c
                 = Inr (text_ans a, startIndex a, endIndex a)) \<and>
            ((\<forall>i. 0 < i \<and> i < length (origTokens f) \<longrightarrow> 0 < index_tok (origTokens f ! i)) \<longrightarrow>
               (\<forall>a\<in>set answers. 0 < startIndex a)))"
proof -
  let ?q = "length (tokenize tk (normalizeQuery query))"
  let ?m = "tokenToOrigMap f" and ?toks = "origTokens f"
  obtain tokenToOrigIndex allDocTokens
    where sub: "subTokens_loop tk (processInput tk (trim ctx)) 0 [] [] = (tokenToOrigIndex, allDocTokens)"
    by (cases "subTokens_loop tk (processInput tk (trim ctx)) 0 [] []") auto
  from process_feature_shape [OF assms(1) sub assms(2) refl] obtain st k
    where k: "0 < k"
      and m: "?m = (\<lambda>p. if ?q + 2 < p \<and> p \<le> ?q + 2 + k
                   then Some (tokenToOrigIndex ! (st + (p - ?q - 3))) else None)"
    by blast
  note range = process_feature_map_in_range [OF assms]
  have first: "?m (?q + 3) \<noteq> None" using k by (subst m) simp
  have least: "\<forall>p\<in>dom ?m. ?q + 3 \<le> p" using range by auto
  have cls: "?m (0 + OUTPUT_OFFSET) = None"
  proof (rule ccontr)
    assume "?m (0 + OUTPUT_OFFSET) \<noteq> None"
    then obtain v where "?m (0 + OUTPUT_OFFSET) = Some v" by auto
    with range have "?q + 3 \<le> 0 + OUTPUT_OFFSET" by blast
    then show False by (simp add: OUTPUT_OFFSET_def)
  qed
  have pos: "0 < start_ai r \<and> (\<exists>a. ?m (start_ai r + OUTPUT_OFFSET) = Some a \<and> 0 < a \<and> a < length ?toks)"
    if "r \<in> set (origResults startLogits endLogits ?m)" for r
  proof -
    from that have "truthy (?m (start_ai r + OUTPUT_OFFSET))" by (simp add: origResults_iff)
    then obtain a where a: "?m (start_ai r + OUTPUT_OFFSET) = Some a" "0 < a"
      by (auto simp add: truthy_Some)
    with range have "a < length ?toks" and "?q + 3 \<le> start_ai r + OUTPUT_OFFSET" by blast+
    with a show ?thesis by (simp add: OUTPUT_OFFSET_def)
  qed
  from range have "\<forall>p v. ?m p = Some v \<longrightarrow> v < length ?toks" by blast
  from getBestAnswers_returns [OF this] obtain answers
    where run: "getBestAnswers startLogits endLogits ?toks ?m c docIndex ident = Inr answers"
    by blast
  note snd = getBestAnswers_sound(3) [OF run]
  have via: "\<forall>a\<in>set answers. \<exists>r\<in>set (origResults startLogits endLogits ?m).
               0 < start_ai r \<and> score_ans a = score_ai r \<and>
               convertBack ?toks ?m (start_ai r) (end_ai r) c
                 = Inr (text_ans a, startIndex a, endIndex a)"
  proof
    fix a assume "a \<in> set answers"
    with snd obtain r where r: "r \<in> set (origResults startLogits endLogits ?m)"
      and sc: "score_ans a = score_ai r"
      and conv: "if 0 < start_ai r
            then convertBack ?toks ?m (start_ai r) (end_ai r) c
                   = Inr (text_ans a, startIndex a, endIndex a)
            else text_ans a = [] \<and> startIndex a = 0 \<and> endIndex a = 0"
      by blast
    from pos [OF r] conv sc r
    show "\<exists>r\<in>set (origResults startLogits endLogits ?m).
               0 < start_ai r \<and> score_ans a = score_ai r \<and>
               convertBack ?toks ?m (start_ai r) (end_ai r) c
                 = Inr (text_ans a, startIndex a, endIndex a)"
      by auto
  qed
  have offs: "\<forall>a\<in>set answers. 0 < startIndex a"
    if tokpos: "\<forall>i. 0 < i \<and> i < length ?toks \<longrightarrow> 0 < index_tok (?toks ! i)"
  proof
    fix a assume "a \<in> set answers"
    with via obtain r where r: "r \<in> set (origResults startLogits endLogits ?m)"
      and conv: "convertBack ?toks ?m (start_ai r) (end_ai r) c
                 = Inr (text_ans a, startIndex a, endIndex a)"
      by blast
    from pos [OF r] obtain x where x: "?m (start_ai r + OUTPUT_OFFSET) = Some x" "0 < x" "x < length ?toks"
      by blast
    from conv x have "startIndex a = int (index_tok (?toks ! x))"
      by (auto simp add: convertBack_def Let_def split: option.splits if_splits)
    with tokpos x show "0 < startIndex a" by simp
  qed
  have "\<forall>r\<in>set (origResults startLogits endLogits ?m). 0 < start_ai r"
    using pos by blast
  with first least cls run via offs show ?thesis by blast
qed

text \<open>The feature of the example, with the model pointing at the word \<open>b\<close>.\<close>

theorem no_answer_branch_unreachable_witness:
  "tokenToOrigMap example_feature 5 \<noteq> None \<and>
   tokenToOrigMap example_feature (0 + OUTPUT_OFFSET) = None \<and>
   (\<exists>answers.
      getBestAnswers (peak_at 5) (peak_at 5) (origTokens example_feature)
        (tokenToOrigMap example_feature) ''a b'' 0 None = Inr answers)"
proof -
  have mem: "example_feature \<in> set [example_feature]" by simp
  from no_answer_branch_unreachable [OF example_process(1) mem,
      of "peak_at 5" "peak_at 5" "''a b''" 0 None]
  show ?thesis
    by (simp add: example_query) blast
qed

section \<open>Claims about \<open>tokenToOrigMap\<close> and the candidates\<close>

text \<open>
  Claim C2, amended. For every feature of \<open>process\<close> there is a window of \<open>k > 0\<close>
  sub-words starting at sub-word \<open>st\<close> of the passage such that: the sequence starts with
  the classification marker, the sub-words of the question and a separator; the \<open>i\<close>-th
  sub-word of the window stands at position \<open>queryTokens.length + 2 + i\<close> (counted from
  0), and \<open>tokenToOrigMap\<close> maps that position plus \<open>OUTPUT_OFFSET\<close> to the index of the
  original token the sub-word is a piece of; the separator follows the window; and the
  keys of the map are exactly the positions of the window's sub-words plus
  \<open>OUTPUT_OFFSET\<close>.
\<close>

theorem tokenToOrigMap_keys:
  assumes "process tk query ctx maxQueryLen maxSeqLen docStride = Some (Inr features)"
    and "subTokens_loop tk (processInput tk (trim ctx)) 0 [] [] = (tokenToOrigIndex, allDocTokens)"
    and "f \<in> set features"
    and "queryTokens = tokenize tk (normalizeQuery query)"
  shows "\<exists>st k. 0 < k \<and> st + k \<le> length allDocTokens \<and>
           take (length queryTokens + 2) (inputIds f) = CLS_INDEX tk # queryTokens @ [SEP_INDEX tk] \<and>
           inputIds f ! (length queryTokens + 2 + k) = SEP_INDEX tk \<and>
           (\<forall>i<k. inputIds f ! (length queryTokens + 2 + i) = allDocTokens ! (st + i) \<and>
                  tokenToOrigMap f (length queryTokens + 2 + i + OUTPUT_OFFSET)
                    = Some (tokenToOrigIndex ! (st + i)) \<and>
                  tokenToOrigIndex ! (st + i) < length (origTokens f) \<and>
                  allDocTokens ! (st + i)
                    \<in> set (tokenize tk (text_tok (origTokens f ! (tokenToOrigIndex ! (st + i)))))) \<and>
           dom (tokenToOrigMap f)
             = {length queryTokens + 2 + OUTPUT_OFFSET ..< length queryTokens + 2 + k + OUTPUT_OFFSET}"
proof -
  let ?q = "length queryTokens"
  from process_feature_shape [OF assms] obtain st k
    where k: "0 < k" "st + k \<le> length allDocTokens"
      and m: "tokenToOrigMap f =
             (\<lambda>p. if ?q + 2 < p \<and> p \<le> ?q + 2 + k
                   then Some (tokenToOrigIndex ! (st + (p - ?q - 3))) else None)"
      and o: "origTokens f = processInput tk (trim ctx)"
      and ids: "inputIds f = CLS_INDEX tk # queryTokens @ [SEP_INDEX tk]
              @ map (\<lambda>i. allDocTokens ! (st + i)) [0..<k] @ [SEP_INDEX tk]
              @ replicate (nat (maxSeqLen - int (?q + k + 3))) 0"
    by blast
  note s = subTokens_loop_sound [OF assms(2)]
  have ids': "inputIds f = (CLS_INDEX tk # queryTokens @ [SEP_INDEX tk])
              @ (map (\<lambda>i. allDocTokens ! (st + i)) [0..<k] @ [SEP_INDEX tk]
              @ replicate (nat (maxSeqLen - int (?q + k + 3))) 0)"
    using ids by simp
  have pre: "take (?q + 2) (inputIds f) = CLS_INDEX tk # queryTokens @ [SEP_INDEX tk]"
    by (subst ids') simp
  have nth: "inputIds f ! (?q + 2 + j) = (map (\<lambda>i. allDocTokens ! (st + i)) [0..<k] @ [SEP_INDEX tk]
              @ replicate (nat (maxSeqLen - int (?q + k + 3))) 0) ! j" for j
    by (subst ids') (simp add: nth_append)
  have sep: "inputIds f ! (?q + 2 + k) = SEP_INDEX tk"
    by (subst nth) (simp add: nth_append)
  have each: "\<forall>i<k. inputIds f ! (?q + 2 + i) = allDocTokens ! (st + i) \<and>
                  tokenToOrigMap f (?q + 2 + i + OUTPUT_OFFSET) = Some (tokenToOrigIndex ! (st + i)) \<and>
                  tokenToOrigIndex ! (st + i) < length (origTokens f) \<and>
                  allDocTokens ! (st + i)
                    \<in> set (tokenize tk (text_tok (origTokens f ! (tokenToOrigIndex ! (st + i)))))"
  proof (intro allI impI)
    fix i assume i: "i < k"
    with k have "st + i < length allDocTokens" by simp
    with s(2) o have "tokenToOrigIndex ! (st + i) < length (origTokens f) \<and>
                  allDocTokens ! (st + i)
                    \<in> set (tokenize tk (text_tok (origTokens f ! (tokenToOrigIndex ! (st + i)))))"
      by simp
    moreover have "inputIds f ! (?q + 2 + i) = allDocTokens ! (st + i)"
      using i by (subst nth) (simp add: nth_append)
    moreover have "tokenToOrigMap f (?q + 2 + i + OUTPUT_OFFSET) = Some (tokenToOrigIndex ! (st + i))"
      using i by (subst m) (simp add: OUTPUT_OFFSET_def)
    ultimately show "inputIds f ! (?q + 2 + i) = allDocTokens ! (st + i) \<and>
                  tokenToOrigMap f (?q + 2 + i + OUTPUT_OFFSET) = Some (tokenToOrigIndex ! (st + i)) \<and>
                  tokenToOrigIndex ! (st + i) < length (origTokens f) \<and>
                  allDocTokens ! (st + i)
                    \<in> set (tokenize tk (text_tok (origTokens f ! (tokenToOrigIndex ! (st + i)))))"
      by simp
  qed
  have d: "dom (tokenToOrigMap f) = {?q + 2 + OUTPUT_OFFSET ..< ?q + 2 + k + OUTPUT_OFFSET}"
    by (subst m) (auto simp add: dom_def OUTPUT_OFFSET_def)
  from k pre sep each d show ?thesis by blast
qed

text \<open>The feature of the example: the keys are 5 and 6, the separator stands at 6.\<close>

theorem tokenToOrigMap_keys_witness:
  "\<exists>st k. 0 < k \<and> st + k \<le> length [97, 98 :: nat] \<and>
     inputIds example_feature ! (length [113, 63 :: nat] + 2 + k) = SEP_INDEX example_tokenizer \<and>
     dom (tokenToOrigMap example_feature)
       = {length [113, 63 :: nat] + 2 + OUTPUT_OFFSET ..< length [113, 63 :: nat] + 2 + k + OUTPUT_OFFSET}"
proof -
  have sub: "subTokens_loop example_tokenizer (processInput example_tokenizer (trim ''a b'')) 0 [] []
      = ([0, 1], [97, 98])"
    by (simp only: example_tokens example_subTokens)
  have mem: "example_feature \<in> set [example_feature]" by simp
  from tokenToOrigMap_keys [OF example_process(1) sub mem example_query [symmetric]]
  show ?thesis by blast
qed

text \<open>
  Claim C2 as it is stated, with positions counted from 0 as the decoder counts them,
  fails on the example: the sub-word of \<open>a\<close> (97) stands at position 4, where the map has
  no entry, and the map has an entry at 6, the position of the last separator (102).
\<close>

theorem tokenToOrigMap_keys_counterexample:
  "process example_tokenizer ''q'' ''a b'' MAX_QUERY_LEN (int MAX_SEQ_LEN) 128
     = Some (Inr [example_feature]) \<and>
   take 7 (inputIds example_feature) = [101, 113, 63, 102, 97, 98, 102] \<and>
   tokenToOrigMap example_feature 4 = None \<and>
   tokenToOrigMap example_feature 6 = Some 1"
  by (simp add: example_process example_inputIds example_map)

text \<open>
  Claim C1 against the code. In the example the model points at position 4, the sub-word
  of the passage's first word, for the start and for the end. Position 4 is among the
  best five, \<open>4 + OUTPUT_OFFSET\<close> is a key of the map (its value is the original token 0),
  the end is not before the start and the span has one sub-word; but the test of line 283
  reads the value 0 as false, no candidate is kept, and \<open>findAnswers\<close> returns no answer.
\<close>

theorem first_word_candidate_dropped:
  "tokenToOrigMap example_feature (4 + OUTPUT_OFFSET) = Some 0 \<and>
   getBestIndex (peak_at 4) = [4, 0, 1, 2, 3] \<and>
   (4 :: nat) - 4 + 1 < MAX_ANSWER_LEN \<and>
   origResults (peak_at 4) (peak_at 4) (tokenToOrigMap example_feature) = [] \<and>
   findAnswers example_tokenizer (\<lambda>ids segs mask. ([peak_at 4], [peak_at 4]))
     (Some ''q'') (Some ''a b'') None = Some (Inr [])"
  unfolding example_candidates example_findAnswers
  by (simp add: example_map OUTPUT_OFFSET_def getBestIndex_peak_at MAX_SEQ_LEN_def
        MAX_ANSWER_LEN_def)

text \<open>
  Claim C3 against the code. In the example the model points at position 5, the sub-word
  of \<open>b\<close>, the last original token. For the passage \<open>a b\<close> the answer \<open>b\<close> has
  \<open>endIndex = 3\<close>, the length of the passage (line 352 adds the length of the last token
  to its offset). For the passage with two leading spaces the offsets are those of the
  trimmed passage (line 123) and the text is cut from the untrimmed one (line 355): the
  answer is \<open>a\<close>, while the original token it covers is \<open>b\<close>.
\<close>

theorem answer_offsets_out_of_range:
  "findAnswers example_tokenizer (\<lambda>ids segs mask. ([peak_at 5], [peak_at 5]))
     (Some ''q'') (Some ''a b'') None
     = Some (Inr [\<lparr>text_ans = ''b'', startIndex = 2, endIndex = 3, score_ans = 20,
                   context_ans = ''a b'', id_ans = None\<rparr>]) \<and>
   int (length ''a b'') = 3 \<and>
   findAnswers example_tokenizer (\<lambda>ids segs mask. ([peak_at 5], [peak_at 5]))
     (Some ''q'') (Some ''  a b'') None
     = Some (Inr [\<lparr>text_ans = ''a'', startIndex = 2, endIndex = 3, score_ans = 20,
                   context_ans = ''  a b'', id_ans = None\<rparr>]) \<and>
   tokenToOrigMap example_feature (5 + OUTPUT_OFFSET) = Some 1 \<and>
   text_tok (origTokens example_feature ! 1) = ''b''"
  unfolding example_findAnswers
  by (simp add: example_map example_origTokens OUTPUT_OFFSET_def)

end
